theory Spec2Isabelle
  imports Main "HOL-Library.Word"
begin

unbundle bit_operations_syntax

section \<open>flcli: the command line interpreter of apps/flcli/main.c\<close>

text \<open>
  The development embeds the functions \<^verbatim>\<open>isHexDigit\<close>, \<^verbatim>\<open>calcChecksum\<close>,
  \<^verbatim>\<open>getHexNibble\<close>, \<^verbatim>\<open>getHexByte\<close>, \<^verbatim>\<open>doRead\<close>, \<^verbatim>\<open>doWrite\<close> and
  \<^verbatim>\<open>parseLine\<close> of \<^verbatim>\<open>src/apps/flcli/main.c\<close>.  C integers are words of their
  width (\<^verbatim>\<open>uint8\<close>, \<^verbatim>\<open>uint16\<close>, \<^verbatim>\<open>uint32\<close>; \<^verbatim>\<open>unsigned long\<close> and \<^verbatim>\<open>size_t\<close> are
  64 bits wide, the LP64 data model).
\<close>

type_synonym uint8 = "8 word"
type_synonym uint16 = "16 word"
type_synonym uint32 = "32 word"
type_synonym ulong = "64 word"
type_synonym size_t = "64 word"

subsection \<open>Checksums\<close>

text \<open>
  \<^verbatim>\<open>calcChecksum\<close> (lines 58-64):
  \<^verbatim>\<open>while ( length-- ) { cksum = (uint16)(cksum + *data++); }\<close>
  The array \<^verbatim>\<open>data\<close> with its \<^verbatim>\<open>length\<close> is a list of bytes.
\<close>

fun calcChecksum_loop :: "uint16 \<Rightarrow> uint8 list \<Rightarrow> uint16" where
  "calcChecksum_loop cksum [] = cksum"
| "calcChecksum_loop cksum (d # data) = calcChecksum_loop (cksum + ucast d) data"

definition calcChecksum :: "uint8 list \<Rightarrow> uint16" where
  "calcChecksum data = calcChecksum_loop 0x0000 data"

text \<open>
  The checksum loop of one chunk in \<^verbatim>\<open>doRead\<close> (lines 161-165, 177-181) and
  \<^verbatim>\<open>doWrite\<close> (lines 214-218):
  \<^verbatim>\<open>while ( i-- ) { csVal = (uint16)(csVal + *ptr++); }\<close>
\<close>

fun checksumChunk :: "uint16 \<Rightarrow> uint8 list \<Rightarrow> uint16" where
  "checksumChunk csVal [] = csVal"
| "checksumChunk csVal (b # bs) = checksumChunk (csVal + ucast b) bs"

subsection \<open>Hex digits\<close>

text \<open>
  \<^verbatim>\<open>isHexDigit\<close> (lines 51-56).  A \<^verbatim>\<open>char\<close> is compared by its code.
\<close>

definition isHexDigit :: "char \<Rightarrow> bool" where
  "isHexDigit ch =
     (((of_char ch :: nat) \<ge> of_char CHR ''0'' \<and> (of_char ch :: nat) \<le> of_char CHR ''9'') \<or>
      ((of_char ch :: nat) \<ge> of_char CHR ''a'' \<and> (of_char ch :: nat) \<le> of_char CHR ''f'') \<or>
      ((of_char ch :: nat) \<ge> of_char CHR ''A'' \<and> (of_char ch :: nat) \<le> of_char CHR ''F''))"

text \<open>
  \<^verbatim>\<open>getHexNibble\<close> (lines 66-79) returns \<^verbatim>\<open>true\<close> on failure and stores the nibble
  otherwise: \<open>None\<close> is the failure.
\<close>

definition getHexNibble :: "char \<Rightarrow> uint8 option" where
  "getHexNibble hexDigit =
     (if (of_char hexDigit :: nat) \<ge> of_char CHR ''0'' \<and> (of_char hexDigit :: nat) \<le> of_char CHR ''9''
      then Some (of_nat (of_char hexDigit - of_char CHR ''0''))
      else if (of_char hexDigit :: nat) \<ge> of_char CHR ''a'' \<and> (of_char hexDigit :: nat) \<le> of_char CHR ''f''
      then Some (of_nat (of_char hexDigit - of_char CHR ''a'' + 10))
      else if (of_char hexDigit :: nat) \<ge> of_char CHR ''A'' \<and> (of_char hexDigit :: nat) \<le> of_char CHR ''F''
      then Some (of_nat (of_char hexDigit - of_char CHR ''A'' + 10))
      else None)"

text \<open>
  The command line is a NUL-terminated C string: reading at or after the end of the HOL
  string gives the terminator.
\<close>

definition NUL :: char where
  "NUL = CHR 0x00"

definition charAt :: "string \<Rightarrow> nat \<Rightarrow> char" where
  "charAt line i = (if i < length line then line ! i else NUL)"

text \<open>
  \<^verbatim>\<open>getHexByte\<close> (lines 81-91) reads \<^verbatim>\<open>ptr[0]\<close> and \<^verbatim>\<open>ptr[1]\<close>; \<^verbatim>\<open>&&\<close> does not
  read the second character when the first is no digit.  It returns 1 on failure (\<open>None\<close>)
  and stores \<^verbatim>\<open>(upperNibble << 4) | lowerNibble\<close> otherwise.
\<close>

definition getHexByte :: "string \<Rightarrow> nat \<Rightarrow> uint8 option" where
  "getHexByte line p =
     (case getHexNibble (charAt line p) of
        None \<Rightarrow> None
      | Some upperNibble \<Rightarrow>
          (case getHexNibble (charAt line (p + 1)) of
             None \<Rightarrow> None
           | Some lowerNibble \<Rightarrow> Some ((push_bit 4 upperNibble) OR lowerNibble)))"

subsection \<open>The C library's \<^verbatim>\<open>strtoul\<close>\<close>

text \<open>
  \<^verbatim>\<open>strtoul(nptr, &end, 16)\<close> after ISO C 7.22.1.4: white space is skipped, then an optional
  sign, then an optional \<^verbatim>\<open>0x\<close> or \<^verbatim>\<open>0X\<close> (only when a hex digit follows it), then the
  longest run of hex digits.  With no digit nothing is converted: the result is 0 and
  \<^verbatim>\<open>end\<close> is \<^verbatim>\<open>nptr\<close>.  A value above \<^verbatim>\<open>ULONG_MAX\<close> gives \<^verbatim>\<open>ULONG_MAX\<close> and sets
  \<^verbatim>\<open>errno\<close> to \<^verbatim>\<open>ERANGE\<close>; a minus sign negates the value in \<^verbatim>\<open>unsigned long\<close>.
  ISO C sets \<^verbatim>\<open>errno\<close> in no other case; POSIX allows a library to set \<^verbatim>\<open>EINVAL\<close> when
  nothing is converted (glibc and the Microsoft runtime do not).  The parameter \<open>einval\<close>
  says whether the library does.  The function gets the string from \<^verbatim>\<open>nptr\<close> on and returns
  the value, the number of characters up to \<^verbatim>\<open>end\<close>, and \<^verbatim>\<open>errno\<close>.
\<close>

definition isspace :: "char \<Rightarrow> bool" where
  "isspace ch = ((of_char ch :: nat) = 32 \<or> (9 \<le> (of_char ch :: nat) \<and> (of_char ch :: nat) \<le> 13))"

definition hexDigitVal :: "char \<Rightarrow> nat" where
  "hexDigitVal ch = (case getHexNibble ch of None \<Rightarrow> 0 | Some n \<Rightarrow> unat n)"

definition hexVal :: "string \<Rightarrow> nat" where
  "hexVal ds = foldl (\<lambda>acc ch. 16 * acc + hexDigitVal ch) 0 ds"

definition EINVAL :: nat where "EINVAL = 22"
definition ERANGE :: nat where "ERANGE = 34"
definition ULONG_MAX :: nat where "ULONG_MAX = 2 ^ 64 - 1"

definition hasHexPrefix :: "string \<Rightarrow> bool" where
  "hasHexPrefix s =
     (case s of
        c0 # cx # h # _ \<Rightarrow> c0 = CHR ''0'' \<and> (cx = CHR ''x'' \<or> cx = CHR ''X'') \<and> isHexDigit h
      | _ \<Rightarrow> False)"

definition strtoul16 :: "bool \<Rightarrow> string \<Rightarrow> ulong \<times> nat \<times> nat" where
  "strtoul16 einval s =
     (let ws = takeWhile isspace s;
          s1 = dropWhile isspace s;
          signed = (s1 \<noteq> [] \<and> (hd s1 = CHR ''-'' \<or> hd s1 = CHR ''+''));
          negative = (s1 \<noteq> [] \<and> hd s1 = CHR ''-'');
          s2 = (if signed then tl s1 else s1);
          prefixed = hasHexPrefix s2;
          s3 = (if prefixed then drop 2 s2 else s2);
          ds = takeWhile isHexDigit s3;
          n = hexVal ds
      in if ds = [] then (0, 0, if einval then EINVAL else 0)
         else
           (if n > ULONG_MAX then of_nat ULONG_MAX else if negative then - of_nat n else of_nat n,
            length ws + (if signed then 1 else 0) + (if prefixed then 2 else 0) + length ds,
            if n > ULONG_MAX then ERANGE else 0))"

subsection \<open>The outside world\<close>

text \<open>
  Every call that leaves the program is recorded, in order, with its arguments: the
  FPGALink transport (\<^verbatim>\<open>flSelectConduit\<close>, \<^verbatim>\<open>flReadChannel\<close>,
  \<^verbatim>\<open>flReadChannelAsyncSubmit\<close>, \<^verbatim>\<open>flReadChannelAsyncAwait\<close>, \<^verbatim>\<open>flWriteChannel\<close>,
  \<^verbatim>\<open>flWriteChannelAsync\<close>, \<^verbatim>\<open>flAwaitAsyncWrites\<close>), the file calls, the benchmark
  \<^verbatim>\<open>printf\<close> (without the speed, a floating point number) and the final \<^verbatim>\<open>dump\<close>.
  \<open>Fread n\<close> records the number of bytes \<^verbatim>\<open>fread\<close> returned, \<open>Fopen name w\<close> the mode
  (\<open>w\<close> for \<^verbatim>\<open>"wb"\<close>).
\<close>

datatype event =
    FlSelectConduit uint8
  | FlReadChannel uint8 uint32
  | FlReadChannelAsyncSubmit uint8 uint32
  | FlReadChannelAsyncAwait
  | FlWriteChannel uint8 "uint8 list"
  | FlWriteChannelAsync uint8 "uint8 list"
  | FlAwaitAsyncWrites
  | Fopen string bool
  | Fread nat
  | Fwrite "uint8 list"
  | Fclose
  | PrintfRead uint32 uint16 uint32
  | PrintfWrote size_t uint16 ulong
  | Dump "uint8 list"

fun isTransportCall :: "event \<Rightarrow> bool" where
  "isTransportCall (FlSelectConduit _) = True"
| "isTransportCall (FlReadChannel _ _) = True"
| "isTransportCall (FlReadChannelAsyncSubmit _ _) = True"
| "isTransportCall FlReadChannelAsyncAwait = True"
| "isTransportCall (FlWriteChannel _ _) = True"
| "isTransportCall (FlWriteChannelAsync _ _) = True"
| "isTransportCall FlAwaitAsyncWrites = True"
| "isTransportCall _ = False"

text \<open>
  What the outside answers is a function of the calls made so far (and of the call):
  \<open>flStatus\<close> says whether a transport call returns \<^verbatim>\<open>FL_SUCCESS\<close>, \<open>flData\<close> is the
  data a read delivers (given the calls up to and with that read), \<open>fopenOk\<close> whether
  \<^verbatim>\<open>fopen\<close> returns a file, \<open>fileContents\<close> the bytes of a file opened for reading,
  \<open>fwriteCount\<close> the return value of \<^verbatim>\<open>fwrite\<close>, \<open>bufInitialiseOk\<close>,
  \<open>bufAppendConstOk\<close> and \<open>mallocOk\<close> whether the allocation succeeds.
  \<open>strtoulEinval\<close> is the behaviour of the C library described above, and
  \<open>enableBenchmarking\<close> the static flag of line 49.
\<close>

record env =
  strtoulEinval :: bool
  enableBenchmarking :: bool
  bufInitialiseOk :: bool
  bufAppendConstOk :: "event list \<Rightarrow> bool"
  mallocOk :: "event list \<Rightarrow> bool"
  fopenOk :: "event list \<Rightarrow> string \<Rightarrow> bool \<Rightarrow> bool"
  fileContents :: "event list \<Rightarrow> string \<Rightarrow> uint8 list"
  fwriteCount :: "event list \<Rightarrow> uint8 list \<Rightarrow> nat"
  flStatus :: "event list \<Rightarrow> event \<Rightarrow> bool"
  flData :: "event list \<Rightarrow> uint8 list"

text \<open>
  The values of the enum \<^verbatim>\<open>ReturnCode\<close> (lines 109-123), and one more that is no
  return code: \<open>CRASHED\<close> stands for a run that does not return from \<^verbatim>\<open>parseLine\<close>,
  because it stores through a null pointer (line 85, after the unchecked \<^verbatim>\<open>malloc\<close> of
  line 470).
\<close>

datatype ReturnCode =
    FLP_SUCCESS
  | FLP_LIBERR
  | FLP_BAD_HEX
  | FLP_CHAN_RANGE
  | FLP_CONDUIT_RANGE
  | FLP_ILL_CHAR
  | FLP_UNTERM_STRING
  | FLP_NO_MEMORY
  | FLP_EMPTY_STRING
  | FLP_ODD_DIGITS
  | FLP_CANNOT_LOAD
  | FLP_CANNOT_SAVE
  | FLP_ARGS
  | CRASHED

subsection \<open>\<^verbatim>\<open>doRead\<close> (lines 125-187)\<close>

definition READ_MAX :: uint32 where
  "READ_MAX = 65536"

definition readChunkSize :: "uint32 \<Rightarrow> uint32" where
  "readChunkSize len = (if len \<ge> READ_MAX then READ_MAX else len)"

text \<open>
  Lines 153-165 and again lines 169-181: await a chunk, write it to the file, add it to the
  checksum.  The transport hands back \<^verbatim>\<open>recvData\<close> with its \<^verbatim>\<open>actualLength\<close>, here a
  list with its length.  The result is the return code (\<open>FLP_SUCCESS\<close> when the code
  goes on), the calls and the checksum.
\<close>

definition awaitChunk :: "env \<Rightarrow> event list \<Rightarrow> uint16 \<Rightarrow> ReturnCode \<times> event list \<times> uint16" where
  "awaitChunk e tr csVal =
     (if \<not> flStatus e tr FlReadChannelAsyncAwait
      then (FLP_LIBERR, tr @ [FlReadChannelAsyncAwait], csVal)
      else
        let tr1 = tr @ [FlReadChannelAsyncAwait];
            recvData = flData e tr1;
            actualLength = (of_nat (length recvData) :: uint32);
            bytesWritten = (of_nat (fwriteCount e tr1 recvData) :: uint32);
            tr2 = tr1 @ [Fwrite recvData]
        in if bytesWritten \<noteq> actualLength then (FLP_CANNOT_SAVE, tr2, csVal)
           else (FLP_SUCCESS, tr2, checksumChunk csVal recvData))"

lemma readChunkSize_less:
  "len \<noteq> 0 \<Longrightarrow> unat (len - readChunkSize len) < unat len"
proof -
  assume nz: "len \<noteq> 0"
  have le: "readChunkSize len \<le> len" by (simp add: readChunkSize_def)
  have pos: "0 < unat (readChunkSize len)"
    using nz by (auto simp: readChunkSize_def READ_MAX_def unat_gt_0)
  have "unat (len - readChunkSize len) = unat len - unat (readChunkSize len)"
    using le by (simp add: unat_sub)
  moreover have "unat (readChunkSize len) \<le> unat len"
    using le by (simp add: word_le_nat_alt)
  ultimately show ?thesis using pos by linarith
qed

text \<open>The loop \<^verbatim>\<open>while ( length ) { ... }\<close> of lines 145-166.\<close>

function doRead_loop ::
  "env \<Rightarrow> uint8 \<Rightarrow> uint32 \<Rightarrow> event list \<Rightarrow> uint16 \<Rightarrow> ReturnCode \<times> event list \<times> uint16" where
  "doRead_loop e chan len tr csVal =
     (if len = 0 then (FLP_SUCCESS, tr, csVal)
      else
        let chunkSize = readChunkSize len;
            submit = FlReadChannelAsyncSubmit chan chunkSize
        in if \<not> flStatus e tr submit then (FLP_LIBERR, tr @ [submit], csVal)
           else
             let r = awaitChunk e (tr @ [submit]) csVal
             in if fst r \<noteq> FLP_SUCCESS then r
                else doRead_loop e chan (len - chunkSize) (fst (snd r)) (snd (snd r)))"
  by pat_completeness auto
termination
  by (relation "measure (\<lambda>(e, chan, len, tr, csVal). unat len)")
     (auto simp: readChunkSize_less)

text \<open>
  \<^verbatim>\<open>doRead\<close> returns the code, the calls, and the value of the caller's \<^verbatim>\<open>checksum\<close>,
  which the caller sets to \<^verbatim>\<open>0x0000\<close> and which is assigned on success only (line 184).
\<close>

definition doRead :: "env \<Rightarrow> uint8 \<Rightarrow> uint32 \<Rightarrow> event list \<Rightarrow> ReturnCode \<times> event list \<times> uint16" where
  "doRead e chan len tr =
     (let chunkSize = readChunkSize len;
          submit = FlReadChannelAsyncSubmit chan chunkSize
      in if \<not> flStatus e tr submit then (FLP_LIBERR, tr @ [submit], 0x0000)
         else
           let r = doRead_loop e chan (len - chunkSize) (tr @ [submit]) 0x0000
           in if fst r \<noteq> FLP_SUCCESS then (fst r, fst (snd r), 0x0000)
              else
                let r2 = awaitChunk e (fst (snd r)) (snd (snd r))
                in if fst r2 \<noteq> FLP_SUCCESS then (fst r2, fst (snd r2), 0x0000)
                   else r2)"

subsection \<open>\<^verbatim>\<open>doWrite\<close> (lines 189-232)\<close>

definition WRITE_MAX :: nat where
  "WRITE_MAX = 65536 - 5"

text \<open>
  The loop \<^verbatim>\<open>do { ... } while ( bytesRead == WRITE_MAX )\<close> of lines 202-220.  \<open>srcFile\<close>
  is what is left to read of the source file: \<^verbatim>\<open>fread\<close> takes up to \<^verbatim>\<open>WRITE_MAX\<close>
  bytes of it.
\<close>

function doWrite_loop ::
  "env \<Rightarrow> uint8 \<Rightarrow> uint8 list \<Rightarrow> event list \<Rightarrow> size_t \<Rightarrow> uint16
   \<Rightarrow> ReturnCode \<times> event list \<times> size_t \<times> uint16" where
  "doWrite_loop e chan srcFile tr lenVal csVal =
     (let buffer = take WRITE_MAX srcFile;
          bytesRead = length buffer;
          tr1 = tr @ [Fread bytesRead]
      in if bytesRead \<noteq> 0 then
           (let lenVal1 = lenVal + of_nat bytesRead;
                write = FlWriteChannelAsync chan buffer
            in if \<not> flStatus e tr1 write then (FLP_LIBERR, tr1 @ [write], lenVal1, csVal)
               else if bytesRead = WRITE_MAX
               then doWrite_loop e chan (drop WRITE_MAX srcFile) (tr1 @ [write]) lenVal1
                      (checksumChunk csVal buffer)
               else (FLP_SUCCESS, tr1 @ [write], lenVal1, checksumChunk csVal buffer))
         else if bytesRead = WRITE_MAX
         then doWrite_loop e chan (drop WRITE_MAX srcFile) tr1 lenVal csVal
         else (FLP_SUCCESS, tr1, lenVal, csVal))"
  by pat_completeness auto
termination
  by (relation "measure (\<lambda>(e, chan, srcFile, tr, lenVal, csVal). length srcFile)")
     (auto simp: WRITE_MAX_def)

text \<open>
  \<^verbatim>\<open>doWrite\<close> gets the values the caller's \<^verbatim>\<open>length\<close> and \<^verbatim>\<open>checksum\<close> have before the
  call and returns those they have after it: they are assigned on success only
  (lines 228-229).
\<close>

definition doWrite ::
  "env \<Rightarrow> uint8 \<Rightarrow> uint8 list \<Rightarrow> event list \<Rightarrow> size_t \<Rightarrow> uint16
   \<Rightarrow> ReturnCode \<times> event list \<times> size_t \<times> uint16" where
  "doWrite e chan srcFile tr length0 checksum0 =
     (let r = doWrite_loop e chan srcFile tr 0 0x0000
      in if fst r \<noteq> FLP_SUCCESS then (fst r, fst (snd r), length0, checksum0)
         else
           let tr1 = fst (snd r)
           in if \<not> flStatus e tr1 FlAwaitAsyncWrites
              then (FLP_LIBERR, tr1 @ [FlAwaitAsyncWrites], length0, checksum0)
              else (FLP_SUCCESS, tr1 @ [FlAwaitAsyncWrites], fst (snd (snd r)), snd (snd (snd r))))"

subsection \<open>\<^verbatim>\<open>parseLine\<close> (lines 234-556)\<close>

text \<open>
  The state of \<^verbatim>\<open>parseLine\<close>: the static cursor \<^verbatim>\<open>ptr\<close> (as an offset into the line),
  the calls made so far, the buffer \<^verbatim>\<open>dataFromFPGA\<close>, and whether \<^verbatim>\<open>file\<close> is an open file.
  An action returns a code and the state: \<open>FLP_SUCCESS\<close> at its \<^verbatim>\<open>break\<close>, the code
  of \<^verbatim>\<open>CHECK_STATUS\<close> or \<^verbatim>\<open>FAIL\<close> at a jump to \<^verbatim>\<open>cleanup\<close>.
\<close>

record pstate =
  ptr :: nat
  calls :: "event list"
  dataFromFPGA :: "uint8 list"
  fileOpen :: bool

definition bench :: "env \<Rightarrow> event \<Rightarrow> event list" where
  "bench e ev = (if enableBenchmarking e then [ev] else [])"

text \<open>\<^verbatim>\<open>while ( *ptr == ';' ) ptr++;\<close> (lines 257-259).\<close>

definition skipSemicolons :: "string \<Rightarrow> nat \<Rightarrow> nat" where
  "skipSemicolons line p = p + length (takeWhile (\<lambda>c. c = CHR '';'') (drop p line))"

text \<open>\<^verbatim>\<open>while ( *p != quoteChar && *p != '\0' ) p++;\<close> (lines 300-302, 413-415).\<close>

definition scanQuoted :: "string \<Rightarrow> char \<Rightarrow> nat \<Rightarrow> nat" where
  "scanQuoted line quoteChar p = p + length (takeWhile (\<lambda>c. c \<noteq> quoteChar \<and> c \<noteq> NUL) (drop p line))"

text \<open>\<^verbatim>\<open>while ( isHexDigit(*p) ) p++;\<close> (lines 465-467).\<close>

definition scanHex :: "string \<Rightarrow> nat \<Rightarrow> nat" where
  "scanHex line p = p + length (takeWhile isHexDigit (drop p line))"

text \<open>
  Lines 297-309 and 410-422: the file name between the quotes, with \<^verbatim>\<open>ptr\<close> just after
  the opening quote.
\<close>

definition getFileName ::
  "env \<Rightarrow> string \<Rightarrow> char \<Rightarrow> pstate \<Rightarrow> (ReturnCode \<times> pstate) + (string \<times> pstate)" where
  "getFileName e line quoteChar st =
     (let p = scanQuoted line quoteChar (ptr st)
      in if charAt line p = NUL then Inl (FLP_UNTERM_STRING, st)
         else if \<not> mallocOk e (calls st) then Inl (FLP_NO_MEMORY, st)
         else if p - ptr st = 0 then Inl (FLP_EMPTY_STRING, st)
         else Inr (take (p - ptr st) (drop (ptr st) line), st\<lparr>ptr := p + 1\<rparr>))"

text \<open>Case \<^verbatim>\<open>'r'\<close>, lines 290-310: the optional file name after the length.\<close>

definition readFileName ::
  "env \<Rightarrow> string \<Rightarrow> uint32 \<Rightarrow> uint32 \<Rightarrow> pstate
   \<Rightarrow> (ReturnCode \<times> pstate) + (uint32 \<times> uint32 \<times> string option \<times> pstate)" where
  "readFileName e line chan len st0 =
     (let st1 = st0\<lparr>ptr := ptr st0 + 1\<rparr>;
          quoteChar = charAt line (ptr st1)
      in if quoteChar \<noteq> CHR 0x22 \<and> quoteChar \<noteq> CHR 0x27 then Inl (FLP_ILL_CHAR, st1)
         else
           (case getFileName e line quoteChar (st1\<lparr>ptr := ptr st1 + 1\<rparr>) of
              Inl err \<Rightarrow> Inl err
            | Inr (fileName, st2) \<Rightarrow> Inr (chan, len, Some fileName, st2)))"

text \<open>Case \<^verbatim>\<open>'r'\<close>, lines 279-311: the optional read count after the channel.\<close>

definition readLength ::
  "env \<Rightarrow> string \<Rightarrow> uint32 \<Rightarrow> pstate
   \<Rightarrow> (ReturnCode \<times> pstate) + (uint32 \<times> uint32 \<times> string option \<times> pstate)" where
  "readLength e line chan st0 =
     (let st1 = st0\<lparr>ptr := ptr st0 + 1\<rparr>;
          r = strtoul16 (strtoulEinval e) (drop (ptr st1) line);
          len = (ucast (fst r) :: uint32);
          endp = ptr st1 + fst (snd r)
      in if snd (snd r) \<noteq> 0 then Inl (FLP_BAD_HEX, st1)
         else
           let st2 = st1\<lparr>ptr := endp\<rparr>
           in if charAt line (ptr st2) \<noteq> NUL \<and> charAt line (ptr st2) \<noteq> CHR '';''
                 \<and> charAt line (ptr st2) \<noteq> CHR '' ''
              then Inl (FLP_ILL_CHAR, st2)
              else if charAt line (ptr st2) = CHR '' '' then readFileName e line chan len st2
              else Inr (chan, len, None, st2))"

text \<open>Case \<^verbatim>\<open>'r'\<close>, lines 262-311: channel, read count (1 when absent) and file name.\<close>

definition readArgs ::
  "env \<Rightarrow> string \<Rightarrow> pstate
   \<Rightarrow> (ReturnCode \<times> pstate) + (uint32 \<times> uint32 \<times> string option \<times> pstate)" where
  "readArgs e line st0 =
     (let st1 = st0\<lparr>ptr := ptr st0 + 1\<rparr>;
          r = strtoul16 (strtoulEinval e) (drop (ptr st1) line);
          chan = (ucast (fst r) :: uint32);
          endp = ptr st1 + fst (snd r)
      in if snd (snd r) \<noteq> 0 then Inl (FLP_BAD_HEX, st1)
         else if chan > 127 then Inl (FLP_CHAN_RANGE, st1)
         else
           let st2 = st1\<lparr>ptr := endp\<rparr>
           in if charAt line (ptr st2) \<noteq> NUL \<and> charAt line (ptr st2) \<noteq> CHR '';''
                 \<and> charAt line (ptr st2) \<noteq> CHR '' ''
              then Inl (FLP_ILL_CHAR, st2)
              else if charAt line (ptr st2) = CHR '' '' then readLength e line chan st2
              else Inr (chan, 1, None, st2))"

text \<open>Lines 312-351: the read into a file, through \<^verbatim>\<open>doRead\<close>.\<close>

definition readToFile ::
  "env \<Rightarrow> uint32 \<Rightarrow> uint32 \<Rightarrow> string \<Rightarrow> pstate \<Rightarrow> ReturnCode \<times> pstate" where
  "readToFile e chan len fileName st =
     (let st1 = st\<lparr>calls := calls st @ [Fopen fileName True]\<rparr>
      in if \<not> fopenOk e (calls st) fileName True then (FLP_CANNOT_SAVE, st1)
         else
           let st2 = st1\<lparr>fileOpen := True\<rparr>;
               r = doRead e (ucast chan) len (calls st2);
               st3 = st2\<lparr>calls := fst (snd r) @ bench e (PrintfRead len (snd (snd r)) chan)\<rparr>
           in if fst r \<noteq> FLP_SUCCESS then (fst r, st3)
              else (FLP_SUCCESS, st3\<lparr>calls := calls st3 @ [Fclose], fileOpen := False\<rparr>))"

text \<open>
  Lines 352-383: the read into memory.  \<^verbatim>\<open>bufAppendConst\<close> appends \<^verbatim>\<open>length\<close> zero
  bytes to \<^verbatim>\<open>dataFromFPGA\<close> and \<^verbatim>\<open>flReadChannel\<close> writes what it receives over them.
\<close>

definition readToMemory ::
  "env \<Rightarrow> uint32 \<Rightarrow> uint32 \<Rightarrow> pstate \<Rightarrow> ReturnCode \<times> pstate" where
  "readToMemory e chan len st =
     (if \<not> bufAppendConstOk e (calls st) then (FLP_LIBERR, st)
      else
        let rd = FlReadChannel (ucast chan) len;
            received = take (unat len) (flData e (calls st @ [rd]) @ replicate (unat len) 0x00);
            st1 = st\<lparr>calls := calls st @ [rd] @ bench e (PrintfRead len (calcChecksum received) chan),
                     dataFromFPGA := dataFromFPGA st @ received\<rparr>
        in if \<not> flStatus e (calls st) rd then (FLP_LIBERR, st1) else (FLP_SUCCESS, st1))"

definition case_r :: "env \<Rightarrow> string \<Rightarrow> pstate \<Rightarrow> ReturnCode \<times> pstate" where
  "case_r e line st =
     (case readArgs e line st of
        Inl err \<Rightarrow> err
      | Inr (chan, len, Some fileName, st1) \<Rightarrow> readToFile e chan len fileName st1
      | Inr (chan, len, None, st1) \<Rightarrow> readToMemory e chan len st1)"

text \<open>Lines 407-460: the write from a file, through \<^verbatim>\<open>doWrite\<close>.\<close>

definition writeFromFile ::
  "env \<Rightarrow> string \<Rightarrow> ulong \<Rightarrow> char \<Rightarrow> pstate \<Rightarrow> ReturnCode \<times> pstate" where
  "writeFromFile e line chan ch st0 =
     (case getFileName e line ch (st0\<lparr>ptr := ptr st0 + 1\<rparr>) of
        Inl err \<Rightarrow> err
      | Inr (fileName, st) \<Rightarrow>
          let st1 = st\<lparr>calls := calls st @ [Fopen fileName False]\<rparr>
          in if \<not> fopenOk e (calls st) fileName False then (FLP_CANNOT_LOAD, st1)
             else
               let st2 = st1\<lparr>fileOpen := True\<rparr>;
                   r = doWrite e (ucast chan) (fileContents e (calls st) fileName) (calls st2) 1 0x0000;
                   st3 = st2\<lparr>calls := fst (snd r)
                            @ bench e (PrintfWrote (fst (snd (snd r))) (snd (snd (snd r))) chan)\<rparr>
               in if fst r \<noteq> FLP_SUCCESS then (fst r, st3)
                  else (FLP_SUCCESS, st3\<lparr>calls := calls st3 @ [Fclose], fileOpen := False\<rparr>))"

text \<open>
  Lines 461-504: the write of a run of hex digits.  The result of \<^verbatim>\<open>malloc\<close> is not
  checked (line 470): when it is \<^verbatim>\<open>NULL\<close>, the first byte that \<^verbatim>\<open>getHexByte\<close> stores
  (line 85) is stored through the null pointer, and the run ends there.  \<^verbatim>\<open>getHexByte\<close>'s
  result is ignored (line 473): a byte it does not store keeps what \<^verbatim>\<open>malloc\<close> left
  there, here \<open>0x00\<close>.
\<close>

definition writeHex :: "env \<Rightarrow> string \<Rightarrow> ulong \<Rightarrow> pstate \<Rightarrow> ReturnCode \<times> pstate" where
  "writeHex e line chan st =
     (let p = scanHex line (ptr st + 1)
      in if odd (p - ptr st) then (FLP_ODD_DIGITS, st)
         else
           let len = (p - ptr st) div 2;
               stores = list_ex (\<lambda>i. getHexByte line (ptr st + 2 * i) \<noteq> None) [0..<len];
               data = map (\<lambda>i. case getHexByte line (ptr st + 2 * i) of Some b \<Rightarrow> b | None \<Rightarrow> 0x00)
                        [0..<len];
               st1 = st\<lparr>ptr := ptr st + 2 * len\<rparr>;
               wr = FlWriteChannel (ucast chan) data;
               st2 = st1\<lparr>calls := calls st1 @ [wr]
                        @ bench e (PrintfWrote (of_nat len) (calcChecksum data) chan)\<rparr>
           in if \<not> mallocOk e (calls st) \<and> stores then (CRASHED, st)
              else if \<not> flStatus e (calls st1) wr then (FLP_LIBERR, st2)
              else (FLP_SUCCESS, st2))"

definition case_w :: "env \<Rightarrow> string \<Rightarrow> pstate \<Rightarrow> ReturnCode \<times> pstate" where
  "case_w e line st0 =
     (let st1 = st0\<lparr>ptr := ptr st0 + 1\<rparr>;
          r = strtoul16 (strtoulEinval e) (drop (ptr st1) line);
          chan = fst r;
          endp = ptr st1 + fst (snd r)
      in if snd (snd r) \<noteq> 0 then (FLP_BAD_HEX, st1)
         else if chan > 127 then (FLP_CHAN_RANGE, st1)
         else
           let st2 = st1\<lparr>ptr := endp\<rparr>
           in if charAt line (ptr st2) \<noteq> CHR '' '' then (FLP_ILL_CHAR, st2)
              else
                let st3 = st2\<lparr>ptr := ptr st2 + 1\<rparr>;
                    ch = charAt line (ptr st3)
                in if ch = CHR 0x22 \<or> ch = CHR 0x27 then writeFromFile e line chan ch st3
                   else if isHexDigit ch then writeHex e line chan st3
                   else (FLP_ILL_CHAR, st3))"

definition case_plus :: "env \<Rightarrow> string \<Rightarrow> pstate \<Rightarrow> ReturnCode \<times> pstate" where
  "case_plus e line st0 =
     (let st1 = st0\<lparr>ptr := ptr st0 + 1\<rparr>;
          r = strtoul16 (strtoulEinval e) (drop (ptr st1) line);
          conduit = (ucast (fst r) :: uint32);
          endp = ptr st1 + fst (snd r)
      in if snd (snd r) \<noteq> 0 then (FLP_BAD_HEX, st1)
         else if conduit > 255 then (FLP_CONDUIT_RANGE, st1)
         else
           let st2 = st1\<lparr>ptr := endp\<rparr>
           in if charAt line (ptr st2) \<noteq> NUL \<and> charAt line (ptr st2) \<noteq> CHR '';''
              then (FLP_ILL_CHAR, st2)
              else
                let sel = FlSelectConduit (ucast conduit);
                    st3 = st2\<lparr>calls := calls st2 @ [sel]\<rparr>
                in if \<not> flStatus e (calls st2) sel then (FLP_LIBERR, st3) else (FLP_SUCCESS, st3))"

text \<open>The \<^verbatim>\<open>switch ( *ptr )\<close> of lines 260-533.\<close>

definition dispatch :: "env \<Rightarrow> string \<Rightarrow> pstate \<Rightarrow> ReturnCode \<times> pstate" where
  "dispatch e line st =
     (if charAt line (ptr st) = CHR ''r'' then case_r e line st
      else if charAt line (ptr st) = CHR ''w'' then case_w e line st
      else if charAt line (ptr st) = CHR ''+'' then case_plus e line st
      else (FLP_ILL_CHAR, st))"

text \<open>
  Every action that reaches its \<^verbatim>\<open>break\<close> has moved the cursor forward, so the loop
  over the actions ends.
\<close>

lemma getFileName_advances:
  "getFileName e line q st = Inr (f, st') \<Longrightarrow> ptr st < ptr st'"
  by (auto simp: getFileName_def Let_def scanQuoted_def split: if_splits)

lemma getFileName_Inl:
  "getFileName e line q st = Inl (rc, st') \<Longrightarrow> rc \<noteq> FLP_SUCCESS"
  by (auto simp: getFileName_def Let_def split: if_splits)

lemma readFileName_Inl:
  "readFileName e line chan len st = Inl (rc, st') \<Longrightarrow> rc \<noteq> FLP_SUCCESS"
  by (auto simp: readFileName_def Let_def split: if_splits sum.splits dest!: getFileName_Inl)

lemma readLength_Inl:
  "readLength e line chan st = Inl (rc, st') \<Longrightarrow> rc \<noteq> FLP_SUCCESS"
  by (auto simp: readLength_def Let_def split: if_splits dest!: readFileName_Inl)

lemma readArgs_Inl:
  "readArgs e line st = Inl (rc, st') \<Longrightarrow> rc \<noteq> FLP_SUCCESS"
  by (auto simp: readArgs_def Let_def split: if_splits dest!: readLength_Inl)

lemma readFileName_advances:
  "readFileName e line chan len st = Inr (c, l, f, st') \<Longrightarrow> ptr st < ptr st'"
  by (auto simp: readFileName_def Let_def split: if_splits sum.splits dest!: getFileName_advances)

lemma readLength_advances:
  "readLength e line chan st = Inr (c, l, f, st') \<Longrightarrow> ptr st < ptr st'"
  by (auto simp: readLength_def Let_def split: if_splits dest!: readFileName_advances)

lemma readArgs_advances:
  "readArgs e line st = Inr (c, l, f, st') \<Longrightarrow> ptr st < ptr st'"
  by (auto simp: readArgs_def Let_def split: if_splits dest!: readLength_advances)

lemma readToFile_ptr: "readToFile e chan len f st = (rc, st') \<Longrightarrow> ptr st' = ptr st"
  by (auto simp: readToFile_def Let_def split: if_splits)

lemma readToMemory_ptr: "readToMemory e chan len st = (rc, st') \<Longrightarrow> ptr st' = ptr st"
  by (auto simp: readToMemory_def Let_def split: if_splits)

lemma case_r_advances:
  "case_r e line st = (FLP_SUCCESS, st') \<Longrightarrow> ptr st < ptr st'"
  by (auto simp: case_r_def split: sum.splits option.splits
      dest!: readArgs_advances readToFile_ptr readToMemory_ptr readArgs_Inl)

lemma writeFromFile_advances:
  "writeFromFile e line chan ch st = (FLP_SUCCESS, st') \<Longrightarrow> ptr st < ptr st'"
  by (auto simp: writeFromFile_def Let_def split: sum.splits if_splits
      dest!: getFileName_advances getFileName_Inl)

lemma writeHex_advances:
  "writeHex e line chan st = (FLP_SUCCESS, st') \<Longrightarrow> ptr st \<le> ptr st'"
  by (auto simp: writeHex_def Let_def split: if_splits)

lemma case_w_advances:
  "case_w e line st = (FLP_SUCCESS, st') \<Longrightarrow> ptr st < ptr st'"
  by (auto simp: case_w_def Let_def split: if_splits
      dest!: writeFromFile_advances writeHex_advances)

lemma case_plus_advances:
  "case_plus e line st = (FLP_SUCCESS, st') \<Longrightarrow> ptr st < ptr st'"
  by (auto simp: case_plus_def Let_def split: if_splits)

lemma dispatch_advances:
  "dispatch e line st = (FLP_SUCCESS, st') \<Longrightarrow> ptr st < ptr st'"
  by (auto simp: dispatch_def split: if_splits
      dest: case_r_advances case_w_advances case_plus_advances)

text \<open>
  The loop \<^verbatim>\<open>do { ... } while ( *ptr == ';' )\<close> of lines 256-534.
\<close>

function parseLine_loop :: "env \<Rightarrow> string \<Rightarrow> pstate \<Rightarrow> ReturnCode \<times> pstate" where
  "parseLine_loop e line st =
     (let r = dispatch e line (st\<lparr>ptr := skipSemicolons line (ptr st)\<rparr>)
      in if fst r \<noteq> FLP_SUCCESS then r
         else if charAt line (ptr (snd r)) = CHR '';'' then parseLine_loop e line (snd r)
         else r)"
  by pat_completeness auto
termination
proof (relation "measure (\<lambda>(e, line, st). length line - ptr st)", goal_cases)
  case 1
  show ?case by simp
next
  case (2 e line st r)
  then have d: "dispatch e line (st\<lparr>ptr := skipSemicolons line (ptr st)\<rparr>) = (FLP_SUCCESS, snd r)"
    by (metis prod.collapse)
  have "ptr st \<le> skipSemicolons line (ptr st)" by (simp add: skipSemicolons_def)
  with dispatch_advances [OF d] have lt: "ptr st < ptr (snd r)" by simp
  have "ptr (snd r) < length line"
    using 2(3) by (auto simp: charAt_def NUL_def split: if_splits)
  with lt show ?case by simp
qed

text \<open>
  \<^verbatim>\<open>parseLine\<close> returns \<^verbatim>\<open>retVal\<close>; the model adds the column of the diagnostic, which
  is printed when \<^verbatim>\<open>retVal > FLP_LIBERR\<close> (lines 546-554) and is \<^verbatim>\<open>ptr - line\<close>, and
  the calls made, with the \<^verbatim>\<open>dump\<close> of line 537 and the \<^verbatim>\<open>fclose\<close> of line 542.
  When \<^verbatim>\<open>bufInitialise\<close> fails nothing else happens (lines 253-254).  A run that has
  crashed prints, dumps and closes nothing.
\<close>

record result =
  retVal :: ReturnCode
  column :: "nat option"
  events :: "event list"

definition parseLine :: "env \<Rightarrow> string \<Rightarrow> result" where
  "parseLine e line =
     (if \<not> bufInitialiseOk e then \<lparr>retVal = FLP_LIBERR, column = None, events = []\<rparr>
      else
        let r = parseLine_loop e line \<lparr>ptr = 0, calls = [], dataFromFPGA = [], fileOpen = False\<rparr>;
            st = snd r;
            rc = (if fst r = FLP_SUCCESS \<and> charAt line (ptr st) \<noteq> NUL then FLP_ILL_CHAR else fst r)
        in \<lparr>retVal = rc,
            column = (if rc \<noteq> FLP_SUCCESS \<and> rc \<noteq> FLP_LIBERR \<and> rc \<noteq> CRASHED
                      then Some (ptr st) else None),
            events = calls st @ (if rc = FLP_SUCCESS then [Dump (dataFromFPGA st)] else [])
                       @ (if fileOpen st \<and> rc \<noteq> CRASHED then [Fclose] else [])\<rparr>)"

subsection \<open>A world in which nothing fails\<close>

text \<open>
  The concrete world of the examples: every call succeeds, \<^verbatim>\<open>strtoul\<close> is ISO C's and
  glibc's, benchmarking is on, files to read are empty, and the device delivers as many
  bytes as were asked for, counting up from \<open>0x00\<close>.
\<close>

fun submitSizes :: "event list \<Rightarrow> uint32 list" where
  "submitSizes [] = []"
| "submitSizes (FlReadChannelAsyncSubmit c n # tr) = n # submitSizes tr"
| "submitSizes (_ # tr) = submitSizes tr"

definition countingBytes :: "nat \<Rightarrow> uint8 list" where
  "countingBytes n = map of_nat [0..<n]"

definition deviceData :: "event list \<Rightarrow> uint8 list" where
  "deviceData tr =
     (if tr = [] then []
      else case last tr of
        FlReadChannel c n \<Rightarrow> countingBytes (unat n)
      | FlReadChannelAsyncAwait \<Rightarrow>
          (let k = length (filter (\<lambda>ev. ev = FlReadChannelAsyncAwait) tr) - 1;
               sizes = submitSizes tr
           in if k < length sizes then countingBytes (unat (sizes ! k)) else [])
      | _ \<Rightarrow> [])"

definition idealEnv :: env where
  "idealEnv =
     \<lparr>strtoulEinval = False, enableBenchmarking = True, bufInitialiseOk = True,
      bufAppendConstOk = (\<lambda>tr. True), mallocOk = (\<lambda>tr. True),
      fopenOk = (\<lambda>tr name w. True), fileContents = (\<lambda>tr name. []),
      fwriteCount = (\<lambda>tr d. length d), flStatus = (\<lambda>tr ev. True), flData = deviceData\<rparr>"

subsection \<open>Reading the calls\<close>

text \<open>
  The numbers of bytes the \<^verbatim>\<open>fread\<close> calls returned, the chunks written by the
  \<^verbatim>\<open>fwrite\<close> calls (in \<^verbatim>\<open>doRead\<close>: the chunks received), and the buffers of the
  \<^verbatim>\<open>flWriteChannelAsync\<close> calls, in order.
\<close>

fun freadSizes :: "event list \<Rightarrow> nat list" where
  "freadSizes [] = []"
| "freadSizes (Fread n # tr) = n # freadSizes tr"
| "freadSizes (_ # tr) = freadSizes tr"

fun fwriteData :: "event list \<Rightarrow> uint8 list list" where
  "fwriteData [] = []"
| "fwriteData (Fwrite d # tr) = d # fwriteData tr"
| "fwriteData (_ # tr) = fwriteData tr"

fun asyncWrites :: "event list \<Rightarrow> uint8 list list" where
  "asyncWrites [] = []"
| "asyncWrites (FlWriteChannelAsync c d # tr) = d # asyncWrites tr"
| "asyncWrites (_ # tr) = asyncWrites tr"

text \<open>
  The order of the transport calls of a read as the specification gives it (sections 4.4 and
  5): the chunk sizes are \<open>min(remaining, 65536)\<close> while something remains; the first chunk
  is submitted, then each further chunk is submitted before the chunk before it is awaited,
  and the last chunk is awaited at the end.
\<close>

function chunkSizes :: "nat \<Rightarrow> nat list" where
  "chunkSizes n = (if n = 0 then [] else min n 65536 # chunkSizes (n - min n 65536))"
  by pat_completeness auto
termination
  by (relation "measure id") auto

definition submitAwait :: "uint8 \<Rightarrow> nat \<Rightarrow> event list" where
  "submitAwait chan c = [FlReadChannelAsyncSubmit chan (of_nat c), FlReadChannelAsyncAwait]"

definition readPattern :: "uint8 \<Rightarrow> nat \<Rightarrow> event list" where
  "readPattern chan n =
     FlReadChannelAsyncSubmit chan (of_nat (min n 65536))
     # concat (map (submitAwait chan) (chunkSizes (n - min n 65536)))
     @ [FlReadChannelAsyncAwait]"

text \<open>
  The number of chunks submitted and not yet awaited after a list of calls; and a monitor
  of the pipeline: with \<open>n\<close> chunks in flight, a submit must leave at most two in flight,
  an await needs one in flight, and \<^verbatim>\<open>fwrite\<close> runs with at most one in flight.
\<close>

fun outstanding :: "event list \<Rightarrow> int" where
  "outstanding [] = 0"
| "outstanding (FlReadChannelAsyncSubmit c n # tr) = outstanding tr + 1"
| "outstanding (FlReadChannelAsyncAwait # tr) = outstanding tr - 1"
| "outstanding (_ # tr) = outstanding tr"

fun isFwrite :: "event \<Rightarrow> bool" where
  "isFwrite (Fwrite d) = True"
| "isFwrite _ = False"

fun pipelined :: "int \<Rightarrow> event list \<Rightarrow> bool" where
  "pipelined n [] = True"
| "pipelined n (FlReadChannelAsyncSubmit c k # tr) = (n + 1 \<le> 2 \<and> pipelined (n + 1) tr)"
| "pipelined n (FlReadChannelAsyncAwait # tr) = (1 \<le> n \<and> pipelined (n - 1) tr)"
| "pipelined n (Fwrite d # tr) = (n \<le> 1 \<and> pipelined n tr)"
| "pipelined n (_ # tr) = pipelined n tr"

subsection \<open>What a line did\<close>

text \<open>
  A line that succeeds with a single transport call: one \<^verbatim>\<open>flReadChannel\<close>, one
  \<^verbatim>\<open>flWriteChannel\<close> or one \<^verbatim>\<open>flSelectConduit\<close>.
\<close>

definition readsOnce :: "env \<Rightarrow> string \<Rightarrow> uint8 \<Rightarrow> uint32 \<Rightarrow> bool" where
  "readsOnce e line chan len =
     (retVal (parseLine e line) = FLP_SUCCESS \<and>
      filter isTransportCall (events (parseLine e line)) = [FlReadChannel chan len])"

definition writesOnce :: "env \<Rightarrow> string \<Rightarrow> uint8 \<Rightarrow> uint8 list \<Rightarrow> bool" where
  "writesOnce e line chan data =
     (retVal (parseLine e line) = FLP_SUCCESS \<and>
      filter isTransportCall (events (parseLine e line)) = [FlWriteChannel chan data])"

definition selectsOnce :: "env \<Rightarrow> string \<Rightarrow> uint8 \<Rightarrow> bool" where
  "selectsOnce e line conduit =
     (retVal (parseLine e line) = FLP_SUCCESS \<and>
      filter isTransportCall (events (parseLine e line)) = [FlSelectConduit conduit])"

text \<open>
  The numerals of the grammar of the specification, section 6:
  \<^verbatim>\<open>hex ::= one-or-more [0-9a-fA-F]\<close>.
\<close>

definition grammarHex :: "string \<Rightarrow> bool" where
  "grammarHex s = (s \<noteq> [] \<and> list_all isHexDigit s)"

section \<open>Properties\<close>

declare doRead_loop.simps [simp del]
declare doWrite_loop.simps [simp del]
declare parseLine_loop.simps [simp del]

lemmas strtoul_simps =
  strtoul16_def isspace_def isHexDigit_def hasHexPrefix_def hexVal_def hexDigitVal_def
  getHexNibble_def ULONG_MAX_def EINVAL_def ERANGE_def

lemmas line_simps =
  parseLine_def dispatch_def skipSemicolons_def charAt_def NUL_def Let_def

subsection \<open>Checksums\<close>


lemma checksumChunk_append:
  "checksumChunk csVal (xs @ ys) = checksumChunk (checksumChunk csVal xs) ys"
  by (induction xs arbitrary: csVal) simp_all

lemma calcChecksum_loop_is_checksumChunk:
  "calcChecksum_loop csVal xs = checksumChunk csVal xs"
  by (induction xs arbitrary: csVal) simp_all

lemma foldl_checksumChunk:
  "foldl checksumChunk csVal chunks = checksumChunk csVal (concat chunks)"
  by (induction chunks arbitrary: csVal) (simp_all add: checksumChunk_append)

lemma unat_ucast_8_16: "unat (ucast (b :: uint8) :: uint16) = unat b"
proof -
  have "unat b < 2 ^ 8" using unsigned_less [of b] by simp
  then have "unat b < 2 ^ 16" by simp
  then show ?thesis by (simp add: unsigned_ucast_eq take_bit_nat_eq_self)
qed

lemma checksumChunk_unat:
  "unat (checksumChunk csVal xs) = (unat csVal + sum_list (map unat xs)) mod 65536"
proof (induction xs arbitrary: csVal)
  case Nil
  have "unat csVal < 2 ^ 16" using unsigned_less [of csVal] by simp
  then show ?case by simp
next
  case (Cons b bs)
  have "unat (csVal + ucast b) = (unat csVal + unat b) mod 65536"
    by (simp add: unat_word_ariths unat_ucast_8_16)
  then show ?case
    by (simp add: Cons.IH mod_add_left_eq add.assoc)
qed

subsection \<open>\<^verbatim>\<open>strtoul\<close> on a run of hex digits\<close>

lemma isHexDigit_not_space: "isHexDigit c \<Longrightarrow> \<not> isspace c"
  by (auto simp: isHexDigit_def isspace_def)

lemma isHexDigit_not_special:
  "isHexDigit c \<Longrightarrow> c \<noteq> CHR ''+'' \<and> c \<noteq> CHR ''-'' \<and> c \<noteq> CHR ''x'' \<and> c \<noteq> CHR ''X''
     \<and> c \<noteq> CHR '' '' \<and> c \<noteq> CHR 0x22 \<and> c \<noteq> CHR 0x27 \<and> c \<noteq> CHR '';'' \<and> c \<noteq> NUL"
  by (auto simp: isHexDigit_def NUL_def)

lemma drop_prefix: "drop (length xs) (xs @ ys) = ys"
  by simp

lemma takeWhile_hex_run:
  "\<forall>c\<in>set ds. isHexDigit c \<Longrightarrow> rest = [] \<or> \<not> isHexDigit (hd rest) \<Longrightarrow>
   takeWhile isHexDigit (ds @ rest) = ds"
  by (cases rest) (auto simp: takeWhile_append2)

lemma strtoul16_digits:
  assumes ne: "ds \<noteq> []" and hex: "\<forall>c\<in>set ds. isHexDigit c"
    and stop: "rest = [] \<or> \<not> isHexDigit (hd rest)"
    and nopfx: "\<not> hasHexPrefix (ds @ rest)"
  shows "strtoul16 b (ds @ rest) =
           (if hexVal ds > ULONG_MAX then of_nat ULONG_MAX else of_nat (hexVal ds),
            length ds,
            if hexVal ds > ULONG_MAX then ERANGE else 0)"
proof -
  obtain d ds' where ds: "ds = d # ds'" using ne by (cases ds) auto
  have d: "isHexDigit d" using hex ds by simp
  have sp: "\<not> isspace d" using d by (rule isHexDigit_not_space)
  have sg: "d \<noteq> CHR ''+''" "d \<noteq> CHR ''-''" using isHexDigit_not_special [OF d] by simp_all
  have tw: "takeWhile isHexDigit (ds @ rest) = ds" using hex stop by (rule takeWhile_hex_run)
  have ws: "takeWhile isspace (ds @ rest) = []" "dropWhile isspace (ds @ rest) = ds @ rest"
    using sp ds by simp_all
  have hd: "hd (ds @ rest) = d" "ds @ rest \<noteq> []" using ds by simp_all
  show ?thesis
    unfolding strtoul16_def Let_def ws
    using hd sg nopfx tw ne by simp
qed

lemma no_prefix_before_space:
  assumes "\<forall>c\<in>set ds. isHexDigit c"
  shows "\<not> hasHexPrefix (ds @ CHR '' '' # rest)"
proof (cases ds)
  case Nil
  then show ?thesis by (simp add: hasHexPrefix_def split: list.splits)
next
  case (Cons d ds')
  show ?thesis
  proof (cases ds')
    case Nil
    with Cons show ?thesis by (simp add: hasHexPrefix_def split: list.splits)
  next
    case (Cons d2 ds'')
    with assms \<open>ds = d # ds'\<close> have "isHexDigit d2" by simp
    then have "d2 \<noteq> CHR ''x''" "d2 \<noteq> CHR ''X''" using isHexDigit_not_special by blast+
    with Cons \<open>ds = d # ds'\<close> show ?thesis by (simp add: hasHexPrefix_def split: list.splits)
  qed
qed

lemma of_nat_le_127:
  assumes "n \<le> ULONG_MAX"
  shows "((of_nat n :: ulong) > 127) = (n > 127)"
proof -
  have "n < 2 ^ 64" using assms by (simp add: ULONG_MAX_def)
  then have "unat (of_nat n :: ulong) = n" by (simp add: unsigned_of_nat take_bit_nat_eq_self)
  then show ?thesis by (simp add: word_less_nat_alt)
qed

lemma strtoul16_no_digits:
  assumes "\<not> isspace c" "c \<noteq> CHR ''+''" "c \<noteq> CHR ''-''" "\<not> isHexDigit c"
  shows "strtoul16 b (c # rest) = (0, 0, if b then EINVAL else 0)"
proof -
  have "\<not> hasHexPrefix (c # rest)"
    using assms(4) by (auto simp: hasHexPrefix_def isHexDigit_def split: list.splits)
  then show ?thesis using assms by (simp add: strtoul16_def)
qed

lemma skipSemicolons_replicate:
  "skipSemicolons (replicate n CHR '';'') 0 = n"
  by (simp add: skipSemicolons_def)

lemma strtoul16_examples:
  "strtoul16 b ''200'' = (0x200, 3, 0)"
  "strtoul16 b ''1 5;+2zz'' = (1, 1, 0)"
  "strtoul16 b ''5;+2zz'' = (5, 1, 0)"
  "strtoul16 b ''2zz'' = (2, 1, 0)"
  "strtoul16 b ''2 a'' = (2, 1, 0)"
  "strtoul16 b ''a'' = (10, 1, 0)"
  "strtoul16 b ''5'' = (5, 1, 0)"
  "strtoul16 b ''1'' = (1, 1, 0)"
  by (simp_all add: strtoul_simps)

lemma strtoul16_beyond_grammar:
  "strtoul16 b ''0x5'' = (5, 3, 0)"
  "strtoul16 b ''0X5'' = (5, 3, 0)"
  "strtoul16 b '' 5'' = (5, 2, 0)"
  "strtoul16 b ''+5'' = (5, 2, 0)"
  "strtoul16 b ''-0'' = (0, 2, 0)"
  "strtoul16 b ''5 0x1'' = (5, 1, 0)"
  "strtoul16 b ''5 0X1'' = (5, 1, 0)"
  "strtoul16 b ''5  1'' = (5, 1, 0)"
  "strtoul16 b ''5 +1'' = (5, 1, 0)"
  "strtoul16 b ''0x1'' = (1, 3, 0)"
  "strtoul16 b ''0X1'' = (1, 3, 0)"
  "strtoul16 b '' 1'' = (1, 2, 0)"
  "strtoul16 b ''+1'' = (1, 2, 0)"
  "strtoul16 b ''0x5 ab'' = (5, 3, 0)"
  "strtoul16 b '' 5 ab'' = (5, 2, 0)"
  "strtoul16 b ''+5 ab'' = (5, 2, 0)"
  by (simp_all add: strtoul_simps)

lemma transport_bench [simp]:
  "filter isTransportCall (bench e (PrintfRead a b c)) = []"
  "filter isTransportCall (bench e (PrintfWrote a2 b2 c2)) = []"
  by (simp_all add: bench_def)

lemma select_not_in_bench [simp]:
  "FlSelectConduit c \<notin> set (bench e (PrintfRead a b d))"
  by (simp add: bench_def)

lemmas read_simps = case_r_def readArgs_def readLength_def readToMemory_def

lemma countingBytes_10: "countingBytes 10 = [0, 1, 2, 3, 4, 5, 6, 7, 8, 9]"
  by (simp add: countingBytes_def upt_conv_Cons)

subsection \<open>Errors of the parser\<close>

text \<open>
  With a C library that sets \<^verbatim>\<open>EINVAL\<close> when nothing is converted, the same lines fail
  with \<^verbatim>\<open>FLP_BAD_HEX\<close>.
\<close>

lemma no_digits_bad_hex_with_einval:
  assumes "bufInitialiseOk e" "strtoulEinval e"
    and "\<not> isspace c" "c \<noteq> CHR ''+''" "c \<noteq> CHR ''-''" "\<not> isHexDigit c"
  shows "parseLine e (CHR ''r'' # c # rest) =
           \<lparr>retVal = FLP_BAD_HEX, column = Some 1, events = []\<rparr>"
proof -
  let ?line = "CHR ''r'' # c # rest"
  let ?st0 = "\<lparr>ptr = 0, calls = [], dataFromFPGA = [], fileOpen = False\<rparr>"
  have "readArgs e ?line ?st0 = Inl (FLP_BAD_HEX, ?st0\<lparr>ptr := 1\<rparr>)"
    using strtoul16_no_digits [OF assms(3-6), of "strtoulEinval e" rest] assms(2)
    by (simp add: readArgs_def Let_def EINVAL_def)
  then have "parseLine_loop e ?line ?st0 = (FLP_BAD_HEX, ?st0\<lparr>ptr := 1\<rparr>)"
    by (subst parseLine_loop.simps)
       (simp add: dispatch_def skipSemicolons_def charAt_def Let_def case_r_def)
  then show ?thesis using assms(1) by (simp add: parseLine_def Let_def)
qed

text \<open>
  C2. The claim: when the channel field of a Read has no hex digit (as in \<^verbatim>\<open>rz\<close>),
  \<^verbatim>\<open>parseLine\<close> fails with \<^verbatim>\<open>FLP_BAD_HEX\<close>.  The code tests \<^verbatim>\<open>errno\<close> after
  \<^verbatim>\<open>strtoul\<close>, and a C library that follows ISO C and sets \<^verbatim>\<open>errno\<close> on overflow only
  leaves it 0 when nothing is converted.  What the code does there: for every character
  \<open>c\<close> after the \<^verbatim>\<open>r\<close> that starts no number (no white space, sign or hex digit) and is
  neither the end of the line nor \<^verbatim>\<open>;\<close>, the line fails with \<^verbatim>\<open>FLP_ILL_CHAR\<close> at
  column 1, and no call is made.
\<close>

theorem C2_no_digits_not_bad_hex:
  assumes "bufInitialiseOk e" "\<not> strtoulEinval e"
    and "\<not> isspace c" "c \<noteq> CHR ''+''" "c \<noteq> CHR ''-''" "\<not> isHexDigit c"
    and "c \<noteq> NUL" "c \<noteq> CHR '';''"
  shows "parseLine e (CHR ''r'' # c # rest) =
           \<lparr>retVal = FLP_ILL_CHAR, column = Some 1, events = []\<rparr>"
proof -
  let ?line = "CHR ''r'' # c # rest"
  let ?st0 = "\<lparr>ptr = 0, calls = [], dataFromFPGA = [], fileOpen = False\<rparr>"
  have sp: "c \<noteq> CHR '' ''" using assms(3) by (auto simp: isspace_def)
  have "readArgs e ?line ?st0 = Inl (FLP_ILL_CHAR, ?st0\<lparr>ptr := 1\<rparr>)"
    using strtoul16_no_digits [OF assms(3-6), of "strtoulEinval e" rest] assms(2,7,8) sp
    by (simp add: readArgs_def Let_def charAt_def)
  then have "parseLine_loop e ?line ?st0 = (FLP_ILL_CHAR, ?st0\<lparr>ptr := 1\<rparr>)"
    by (subst parseLine_loop.simps)
       (simp add: dispatch_def skipSemicolons_def charAt_def Let_def case_r_def)
  then show ?thesis using assms(1) by (simp add: parseLine_def Let_def)
qed

theorem C2_no_digits_not_bad_hex_witness:
  "parseLine idealEnv ''rz'' = \<lparr>retVal = FLP_ILL_CHAR, column = Some 1, events = []\<rparr>"
  using C2_no_digits_not_bad_hex [of idealEnv "CHR ''z''" "[]"]
  by (simp add: idealEnv_def isspace_def isHexDigit_def NUL_def)

text \<open>
  C7. The line \<^verbatim>\<open>r200\<close> fails with \<^verbatim>\<open>FLP_CHAN_RANGE\<close>, the column of the diagnostic
  is 1, just after the \<^verbatim>\<open>r\<close>, and no call is made.
\<close>

theorem C7_r200_chan_range:
  "bufInitialiseOk e \<Longrightarrow>
   parseLine e ''r200'' = \<lparr>retVal = FLP_CHAN_RANGE, column = Some 1, events = []\<rparr>"
  by (simp add: line_simps parseLine_loop.simps read_simps strtoul16_examples)

theorem C7_r200_chan_range_witness:
  "bufInitialiseOk idealEnv \<and>
   parseLine idealEnv ''r200'' = \<lparr>retVal = FLP_CHAN_RANGE, column = Some 1, events = []\<rparr>"
  using C7_r200_chan_range [of idealEnv] by (simp add: idealEnv_def)

text \<open>
  C8. A Write of an inline run of hex digits of odd length fails with \<^verbatim>\<open>FLP_ODD_DIGITS\<close>
  and makes no call: for every line \<^verbatim>\<open>w\<close>, channel digits \<open>ds\<close> with a value up to 127,
  a space, a run \<open>run\<close> of an odd number of hex digits, and a rest that does not go on
  with a hex digit.  The column is that of the first digit of the run.  The line
  \<^verbatim>\<open>w1 48656\<close> is the instance \<open>ds = 1\<close>, \<open>run = 48656\<close>.
\<close>

theorem C8_odd_digits:
  assumes ok: "bufInitialiseOk e"
    and ds: "ds \<noteq> []" "\<forall>c\<in>set ds. isHexDigit c" "hexVal ds \<le> 127"
    and run: "\<forall>c\<in>set run. isHexDigit c" "odd (length run)"
    and rest: "rest = [] \<or> \<not> isHexDigit (hd rest)"
  shows "parseLine e (''w'' @ ds @ '' '' @ run @ rest) =
           \<lparr>retVal = FLP_ODD_DIGITS, column = Some (length ds + 2), events = []\<rparr>"
proof -
  let ?line = "''w'' @ ds @ '' '' @ run @ rest"
  let ?st0 = "\<lparr>ptr = 0, calls = [], dataFromFPGA = [], fileOpen = False\<rparr>"
  let ?st3 = "\<lparr>ptr = length ds + 2, calls = [], dataFromFPGA = [], fileOpen = False\<rparr>"
  obtain r rs where rn: "run = r # rs" using run(2) by (cases run) auto
  have r: "isHexDigit r" and rs: "\<forall>c\<in>set rs. isHexDigit c" using run(1) rn by simp_all
  have small: "\<not> hexVal ds > ULONG_MAX" using ds(3) by (simp add: ULONG_MAX_def)
  have st: "strtoul16 (strtoulEinval e) (ds @ CHR '' '' # run @ rest) = (of_nat (hexVal ds), length ds, 0)"
    using strtoul16_digits [OF ds(1) ds(2), of "CHR '' '' # run @ rest"]
      no_prefix_before_space [OF ds(2)] small
    by (simp add: isHexDigit_def)
  have chan: "\<not> (of_nat (hexVal ds) :: ulong) > 127"
    using of_nat_le_127 [of "hexVal ds"] ds(3) by (simp add: ULONG_MAX_def)
  have skip: "skipSemicolons ?line 0 = 0" by (simp add: skipSemicolons_def)
  have at1: "charAt ?line (Suc (length ds)) = CHR '' ''"
    by (simp add: charAt_def nth_append)
  have at2: "charAt ?line (Suc (Suc (length ds))) = r"
    using rn by (simp add: charAt_def nth_append)
  have split: "?line = (CHR ''w'' # ds @ [CHR '' '', r]) @ (rs @ rest)" using rn by simp
  have len: "length ds + 3 = length (CHR ''w'' # ds @ [CHR '' '', r])" by simp
  have dr: "drop (length ds + 3) ?line = rs @ rest"
    unfolding split len by (rule drop_prefix)
  have scan: "scanHex ?line (length ds + 3) = length ds + 2 + length run"
  proof -
    have "scanHex ?line (length ds + 3) = length ds + 3 + length rs"
      unfolding scanHex_def dr takeWhile_hex_run [OF rs rest] ..
    then show ?thesis using rn by simp
  qed
  have wh: "writeHex e ?line (of_nat (hexVal ds)) ?st3 = (FLP_ODD_DIGITS, ?st3)"
    using scan run(2) by (simp add: writeHex_def Let_def numeral_3_eq_3)
  have cw: "case_w e ?line ?st0 = (FLP_ODD_DIGITS, ?st3)"
    using st chan at1 at2 r isHexDigit_not_special [OF r] wh
    by (simp add: case_w_def Let_def)
  have "parseLine_loop e ?line ?st0 = (FLP_ODD_DIGITS, ?st3)"
    using skip cw by (subst parseLine_loop.simps) (simp add: dispatch_def charAt_def Let_def)
  then show ?thesis using ok by (simp add: parseLine_def Let_def)
qed

theorem C8_odd_digits_witness:
  "parseLine idealEnv ''w1 48656'' =
           \<lparr>retVal = FLP_ODD_DIGITS, column = Some 3, events = []\<rparr>"
  using C8_odd_digits [of idealEnv "''1''" "''48656''" "[]"]
  by (simp add: idealEnv_def isHexDigit_def hexVal_def hexDigitVal_def getHexNibble_def)

text \<open>
  C10. The empty line, and every line of \<open>n\<close> separators \<^verbatim>\<open>;\<close> only, fails with
  \<^verbatim>\<open>FLP_ILL_CHAR\<close>; the column is \<open>n\<close>, the place of the terminating NUL, and no call
  is made.
\<close>

theorem C10_empty_line_illegal_char:
  "bufInitialiseOk e \<Longrightarrow>
   parseLine e (replicate n CHR '';'') =
     \<lparr>retVal = FLP_ILL_CHAR, column = Some n, events = []\<rparr>"
  by (simp add: parseLine_def parseLine_loop.simps [of _ "replicate n CHR '';''"]
      skipSemicolons_replicate dispatch_def charAt_def NUL_def Let_def)

theorem C10_empty_line_illegal_char_witness:
  "bufInitialiseOk idealEnv \<and>
   parseLine idealEnv [] = \<lparr>retVal = FLP_ILL_CHAR, column = Some 0, events = []\<rparr> \<and>
   parseLine idealEnv '';;;'' = \<lparr>retVal = FLP_ILL_CHAR, column = Some 3, events = []\<rparr>"
  using C10_empty_line_illegal_char [of idealEnv 0] C10_empty_line_illegal_char [of idealEnv 3]
  by (simp add: idealEnv_def numeral_3_eq_3)

text \<open>
  C6. On the line \<^verbatim>\<open>r1 5;+2zz\<close>, when the read of the first action succeeds,
  \<^verbatim>\<open>parseLine\<close> fails with \<^verbatim>\<open>FLP_ILL_CHAR\<close> at column 7, the first \<^verbatim>\<open>z\<close>, and the
  read is the only transport call.  In every world, whatever fails, the line makes no
  \<^verbatim>\<open>flSelectConduit\<close> call: the check of the character after the conduit comes first.
\<close>

theorem C6_trailing_chars_before_select:
  "(bufInitialiseOk e \<and> bufAppendConstOk e [] \<and> flStatus e [] (FlReadChannel 1 5) \<longrightarrow>
      retVal (parseLine e ''r1 5;+2zz'') = FLP_ILL_CHAR \<and>
      column (parseLine e ''r1 5;+2zz'') = Some 7 \<and>
      filter isTransportCall (events (parseLine e ''r1 5;+2zz'')) = [FlReadChannel 1 5])
   \<and> FlSelectConduit c \<notin> set (events (parseLine e ''r1 5;+2zz''))"
  by (simp add: line_simps parseLine_loop.simps read_simps case_plus_def strtoul16_examples)

theorem C6_trailing_chars_before_select_witness:
  "retVal (parseLine idealEnv ''r1 5;+2zz'') = FLP_ILL_CHAR \<and>
      column (parseLine idealEnv ''r1 5;+2zz'') = Some 7 \<and>
      filter isTransportCall (events (parseLine idealEnv ''r1 5;+2zz'')) = [FlReadChannel 1 5]
   \<and> FlSelectConduit 2 \<notin> set (events (parseLine idealEnv ''r1 5;+2zz''))"
  using C6_trailing_chars_before_select [of idealEnv 2] by (simp add: idealEnv_def)

subsection \<open>Reads into memory\<close>

lemma getFileName_calls:
  "getFileName e line q st = Inr (f, st') \<Longrightarrow>
   calls st' = calls st \<and> dataFromFPGA st' = dataFromFPGA st \<and> fileOpen st' = fileOpen st"
  by (auto simp: getFileName_def Let_def split: if_splits)

lemma readFileName_calls:
  "readFileName e line chan len st = Inr (c, l, f, st') \<Longrightarrow>
   calls st' = calls st \<and> dataFromFPGA st' = dataFromFPGA st \<and> fileOpen st' = fileOpen st"
  by (auto simp: readFileName_def Let_def split: if_splits sum.splits dest!: getFileName_calls)

lemma readLength_calls:
  "readLength e line chan st = Inr (c, l, f, st') \<Longrightarrow>
   calls st' = calls st \<and> dataFromFPGA st' = dataFromFPGA st \<and> fileOpen st' = fileOpen st"
  by (auto simp: readLength_def Let_def split: if_splits dest!: readFileName_calls)

lemma readArgs_calls:
  "readArgs e line st = Inr (c, l, f, st') \<Longrightarrow>
   calls st' = calls st \<and> dataFromFPGA st' = dataFromFPGA st \<and> fileOpen st' = fileOpen st"
  by (auto simp: readArgs_def Let_def split: if_splits dest!: readLength_calls)

text \<open>
  C1, as claimed: a Read into memory goes through the chunked \<^verbatim>\<open>doRead\<close>.  It does not:
  \<^verbatim>\<open>r2 a\<close> (channel 2, ten bytes) makes one synchronous \<^verbatim>\<open>flReadChannel\<close> call for
  the ten bytes, and neither \<^verbatim>\<open>flReadChannelAsyncSubmit\<close> nor
  \<^verbatim>\<open>flReadChannelAsyncAwait\<close>.
\<close>

theorem C1_counterexample:
  "retVal (parseLine idealEnv ''r2 a'') = FLP_SUCCESS \<and>
   events (parseLine idealEnv ''r2 a'') =
     [FlReadChannel 2 10, PrintfRead 10 0x002D 2, Dump [0, 1, 2, 3, 4, 5, 6, 7, 8, 9]]"
  by (simp add: idealEnv_def line_simps parseLine_loop.simps read_simps strtoul16_examples
      deviceData_def countingBytes_10 bench_def calcChecksum_def)

text \<open>
  C1, amended.  For every Read action with memory destination (arguments parsed with no
  file name) for which \<^verbatim>\<open>bufAppendConst\<close> succeeds, the transfer is a single synchronous
  \<^verbatim>\<open>flReadChannel\<close> call for the whole length; \<^verbatim>\<open>dataFromFPGA\<close> grows by exactly
  \<open>len\<close> bytes, the data received (over the zero bytes appended before the call); and the
  action succeeds exactly when that call does.
\<close>

theorem C1_memory_read_is_synchronous:
  assumes args: "readArgs e line st = Inr (chan, len, None, st1)"
    and buf: "bufAppendConstOk e (calls st)"
  shows "filter isTransportCall (calls (snd (case_r e line st))) =
           filter isTransportCall (calls st) @ [FlReadChannel (ucast chan) len]
         \<and> dataFromFPGA (snd (case_r e line st)) =
             dataFromFPGA st @
             take (unat len) (flData e (calls st @ [FlReadChannel (ucast chan) len]) @ replicate (unat len) 0x00)
         \<and> length (dataFromFPGA (snd (case_r e line st))) = length (dataFromFPGA st) + unat len
         \<and> (fst (case_r e line st) = FLP_SUCCESS
              \<longleftrightarrow> flStatus e (calls st) (FlReadChannel (ucast chan) len))"
proof -
  from readArgs_calls [OF args]
  have same: "calls st1 = calls st" "dataFromFPGA st1 = dataFromFPGA st" by simp_all
  have cr: "case_r e line st = readToMemory e chan len st1"
    using args by (simp add: case_r_def)
  show ?thesis
    unfolding cr
    by (cases "flStatus e (calls st) (FlReadChannel (ucast chan) len)")
       (simp_all add: readToMemory_def Let_def buf same)
qed

theorem C1_memory_read_is_synchronous_witness:
  "readArgs idealEnv ''r2 a'' \<lparr>ptr = 0, calls = [], dataFromFPGA = [], fileOpen = False\<rparr> =
     Inr (2, 10, None, \<lparr>ptr = 4, calls = [], dataFromFPGA = [], fileOpen = False\<rparr>)
   \<and> filter isTransportCall (calls (snd (case_r idealEnv ''r2 a''
         \<lparr>ptr = 0, calls = [], dataFromFPGA = [], fileOpen = False\<rparr>))) = [FlReadChannel 2 10]
   \<and> dataFromFPGA (snd (case_r idealEnv ''r2 a''
         \<lparr>ptr = 0, calls = [], dataFromFPGA = [], fileOpen = False\<rparr>)) = [0, 1, 2, 3, 4, 5, 6, 7, 8, 9]"
proof -
  let ?st = "\<lparr>ptr = 0, calls = [], dataFromFPGA = [], fileOpen = False\<rparr>"
  have args: "readArgs idealEnv ''r2 a'' ?st =
                Inr (2, 10, None, \<lparr>ptr = 4, calls = [], dataFromFPGA = [], fileOpen = False\<rparr>)"
    by (simp add: readArgs_def readLength_def Let_def charAt_def NUL_def strtoul16_examples)
  have buf: "bufAppendConstOk idealEnv (calls ?st)" by (simp add: idealEnv_def)
  show ?thesis
    using C1_memory_read_is_synchronous [OF args buf] args
    by (simp add: idealEnv_def deviceData_def countingBytes_10)
qed

subsection \<open>Numerals that \<^verbatim>\<open>strtoul\<close> accepts\<close>

lemmas write_simps = case_w_def writeHex_def scanHex_def getHexByte_def getHexNibble_def isHexDigit_def

lemma beyond_grammar_read_chan:
  assumes "bufInitialiseOk e" "bufAppendConstOk e []" "flStatus e [] (FlReadChannel 5 1)"
  shows "readsOnce e ''r0x5'' 5 1" "readsOnce e ''r0X5'' 5 1" "readsOnce e ''r 5'' 5 1"
    "readsOnce e ''r+5'' 5 1"
  using assms
  by (simp_all add: readsOnce_def line_simps parseLine_loop.simps read_simps
      strtoul16_beyond_grammar)

lemma beyond_grammar_read_length:
  assumes "bufInitialiseOk e" "bufAppendConstOk e []" "flStatus e [] (FlReadChannel 5 1)"
  shows "readsOnce e ''r5 0x1'' 5 1" "readsOnce e ''r5 0X1'' 5 1" "readsOnce e ''r5  1'' 5 1"
    "readsOnce e ''r5 +1'' 5 1"
  using assms
  by (simp_all add: readsOnce_def line_simps parseLine_loop.simps read_simps
      strtoul16_beyond_grammar)

lemma beyond_grammar_minus:
  assumes "bufInitialiseOk e" "bufAppendConstOk e []" "flStatus e [] (FlReadChannel 0 1)"
  shows "readsOnce e ''r-0'' 0 1"
  using assms
  by (simp add: readsOnce_def line_simps parseLine_loop.simps read_simps
      strtoul16_beyond_grammar)

lemma beyond_grammar_write_chan:
  assumes "bufInitialiseOk e" "mallocOk e []" "flStatus e [] (FlWriteChannel 5 [0xAB])"
  shows "writesOnce e ''w0x5 ab'' 5 [0xAB]" "writesOnce e ''w 5 ab'' 5 [0xAB]"
    "writesOnce e ''w+5 ab'' 5 [0xAB]"
  using assms
  by (simp_all add: writesOnce_def line_simps parseLine_loop.simps write_simps
      strtoul16_beyond_grammar)

lemma beyond_grammar_conduit:
  assumes "bufInitialiseOk e" "flStatus e [] (FlSelectConduit 5)"
  shows "selectsOnce e ''+0x5'' 5" "selectsOnce e ''+0X5'' 5" "selectsOnce e ''+ 5'' 5"
    "selectsOnce e ''++5'' 5"
  using assms
  by (simp_all add: selectsOnce_def line_simps parseLine_loop.simps case_plus_def
      strtoul16_beyond_grammar)

lemma not_grammarHex:
  "\<not> grammarHex ''0x5''" "\<not> grammarHex ''0X5''" "\<not> grammarHex '' 5''"
  "\<not> grammarHex ''+5''" "\<not> grammarHex ''-0''"
  "\<not> grammarHex ''0x1''" "\<not> grammarHex ''0X1''" "\<not> grammarHex '' 1''"
  "\<not> grammarHex ''+1''"
  by (simp_all add: grammarHex_def isHexDigit_def)

text \<open>
  C9. \<^verbatim>\<open>parseLine\<close> accepts, for the channel (of a read and of a write), the length and
  the conduit, numerals that are not in the grammar \<^verbatim>\<open>hex ::= one-or-more [0-9a-fA-F]\<close>:
  with a \<^verbatim>\<open>0x\<close> or \<^verbatim>\<open>0X\<close> prefix, leading white space, or a sign.  When the one
  transport call of the line succeeds, \<^verbatim>\<open>r0x5\<close>, \<^verbatim>\<open>r0X5\<close>, \<^verbatim>\<open>r 5\<close>, \<^verbatim>\<open>r+5\<close>,
  \<^verbatim>\<open>r5 0x1\<close>, \<^verbatim>\<open>r5 0X1\<close>, \<^verbatim>\<open>r5  1\<close> and \<^verbatim>\<open>r5 +1\<close> each succeed as a read of one byte
  of channel 5, \<^verbatim>\<open>r-0\<close> as a read of one byte of channel 0, \<^verbatim>\<open>w0x5 ab\<close>, \<^verbatim>\<open>w 5 ab\<close> and
  \<^verbatim>\<open>w+5 ab\<close> (when \<^verbatim>\<open>malloc\<close> gives the buffer for the byte) as a write of the byte
  \<open>0xAB\<close> to channel 5, and \<^verbatim>\<open>+0x5\<close>, \<^verbatim>\<open>+0X5\<close>,
  \<^verbatim>\<open>+ 5\<close> and \<^verbatim>\<open>++5\<close> as the selection of conduit 5.
\<close>

theorem C9_numerals_beyond_grammar:
  "(bufInitialiseOk e \<and> bufAppendConstOk e [] \<and> flStatus e [] (FlReadChannel 5 1) \<longrightarrow>
      readsOnce e ''r0x5'' 5 1 \<and> readsOnce e ''r0X5'' 5 1 \<and> readsOnce e ''r 5'' 5 1 \<and>
      readsOnce e ''r+5'' 5 1 \<and>
      readsOnce e ''r5 0x1'' 5 1 \<and> readsOnce e ''r5 0X1'' 5 1 \<and> readsOnce e ''r5  1'' 5 1 \<and>
      readsOnce e ''r5 +1'' 5 1)
   \<and> (bufInitialiseOk e \<and> bufAppendConstOk e [] \<and> flStatus e [] (FlReadChannel 0 1) \<longrightarrow>
      readsOnce e ''r-0'' 0 1)
   \<and> (bufInitialiseOk e \<and> mallocOk e [] \<and> flStatus e [] (FlWriteChannel 5 [0xAB]) \<longrightarrow>
      writesOnce e ''w0x5 ab'' 5 [0xAB] \<and> writesOnce e ''w 5 ab'' 5 [0xAB] \<and>
      writesOnce e ''w+5 ab'' 5 [0xAB])
   \<and> (bufInitialiseOk e \<and> flStatus e [] (FlSelectConduit 5) \<longrightarrow>
      selectsOnce e ''+0x5'' 5 \<and> selectsOnce e ''+0X5'' 5 \<and> selectsOnce e ''+ 5'' 5 \<and>
      selectsOnce e ''++5'' 5)
   \<and> \<not> grammarHex ''0x5'' \<and> \<not> grammarHex ''0X5'' \<and> \<not> grammarHex '' 5'' \<and>
     \<not> grammarHex ''+5'' \<and> \<not> grammarHex ''-0'' \<and> \<not> grammarHex ''0x1'' \<and>
     \<not> grammarHex ''0X1'' \<and> \<not> grammarHex '' 1'' \<and> \<not> grammarHex ''+1''"
  by (simp add: beyond_grammar_read_chan beyond_grammar_read_length beyond_grammar_minus
      beyond_grammar_write_chan beyond_grammar_conduit not_grammarHex)

theorem C9_numerals_beyond_grammar_witness:
  "readsOnce idealEnv ''r0x5'' 5 1 \<and> readsOnce idealEnv ''r0X5'' 5 1 \<and>
   readsOnce idealEnv ''r 5'' 5 1 \<and> readsOnce idealEnv ''r+5'' 5 1 \<and>
   readsOnce idealEnv ''r5 0x1'' 5 1 \<and> readsOnce idealEnv ''r5 0X1'' 5 1 \<and>
   readsOnce idealEnv ''r5  1'' 5 1 \<and> readsOnce idealEnv ''r5 +1'' 5 1 \<and>
   readsOnce idealEnv ''r-0'' 0 1 \<and>
   writesOnce idealEnv ''w0x5 ab'' 5 [0xAB] \<and> writesOnce idealEnv ''w 5 ab'' 5 [0xAB] \<and>
   writesOnce idealEnv ''w+5 ab'' 5 [0xAB] \<and>
   selectsOnce idealEnv ''+0x5'' 5 \<and> selectsOnce idealEnv ''+0X5'' 5 \<and>
   selectsOnce idealEnv ''+ 5'' 5 \<and> selectsOnce idealEnv ''++5'' 5"
proof -
  have ok: "bufInitialiseOk idealEnv" "bufAppendConstOk idealEnv []" "mallocOk idealEnv []"
    "flStatus idealEnv [] (FlReadChannel 5 1)" "flStatus idealEnv [] (FlReadChannel 0 1)"
    "flStatus idealEnv [] (FlWriteChannel 5 [0xAB])" "flStatus idealEnv [] (FlSelectConduit 5)"
    by (simp_all add: idealEnv_def)
  show ?thesis using C9_numerals_beyond_grammar [of idealEnv] ok by simp
qed

subsection \<open>Writes from a file\<close>

lemma freadSizes_append: "freadSizes (xs @ ys) = freadSizes xs @ freadSizes ys"
  by (induction xs rule: freadSizes.induct) simp_all

lemma asyncWrites_append: "asyncWrites (xs @ ys) = asyncWrites xs @ asyncWrites ys"
  by (induction xs rule: asyncWrites.induct) simp_all

lemma WRITE_MAX_pos: "0 < WRITE_MAX"
  by (simp add: WRITE_MAX_def)

lemma doWrite_loop_all_ok:
  assumes ok: "\<forall>tr b. flStatus e tr (FlWriteChannelAsync chan b)"
  shows "fst (doWrite_loop e chan src tr lenVal csVal) = FLP_SUCCESS
       \<and> freadSizes (fst (snd (doWrite_loop e chan src tr lenVal csVal))) =
           freadSizes tr @ replicate (length src div WRITE_MAX) WRITE_MAX @ [length src mod WRITE_MAX]
       \<and> concat (asyncWrites (fst (snd (doWrite_loop e chan src tr lenVal csVal)))) =
           concat (asyncWrites tr) @ src
       \<and> fst (snd (snd (doWrite_loop e chan src tr lenVal csVal))) = lenVal + of_nat (length src)
       \<and> snd (snd (snd (doWrite_loop e chan src tr lenVal csVal))) = checksumChunk csVal src"
  using ok
proof (induction e chan src tr lenVal csVal rule: doWrite_loop.induct)
  case (1 e chan srcFile tr lenVal csVal)
  note ok1 = 1(3)
  show ?case
  proof (cases "length srcFile < WRITE_MAX")
    case True
    then have tk: "take WRITE_MAX srcFile = srcFile" by simp
    have dm: "length srcFile div WRITE_MAX = 0" "length srcFile mod WRITE_MAX = length srcFile"
      using True by simp_all
    show ?thesis
      using True ok1 WRITE_MAX_pos
      by (subst (1 2 3 4 5) doWrite_loop.simps)
         (simp add: Let_def tk dm freadSizes_append asyncWrites_append)
  next
    case False
    then have ge: "WRITE_MAX \<le> length srcFile" by simp
    have ltk: "length (take WRITE_MAX srcFile) = WRITE_MAX" using ge by simp
    have nz: "WRITE_MAX \<noteq> 0" using WRITE_MAX_pos by simp
    have ne: "srcFile \<noteq> []" using ge nz by auto
    have ln: "lenVal + of_nat WRITE_MAX + of_nat (length (drop WRITE_MAX srcFile)) =
              lenVal + (of_nat (length srcFile) :: size_t)"
      using ge by (simp add: add.assoc flip: of_nat_add)
    let ?tr = "tr @ [Fread WRITE_MAX] @ [FlWriteChannelAsync chan (take WRITE_MAX srcFile)]"
    let ?r = "doWrite_loop e chan (drop WRITE_MAX srcFile) ?tr
                (lenVal + of_nat WRITE_MAX) (checksumChunk csVal (take WRITE_MAX srcFile))"
    have IH: "fst ?r = FLP_SUCCESS
       \<and> freadSizes (fst (snd ?r)) =
           freadSizes ?tr @ replicate (length (drop WRITE_MAX srcFile) div WRITE_MAX) WRITE_MAX
             @ [length (drop WRITE_MAX srcFile) mod WRITE_MAX]
       \<and> concat (asyncWrites (fst (snd ?r))) = concat (asyncWrites ?tr) @ drop WRITE_MAX srcFile
       \<and> fst (snd (snd ?r)) =
           lenVal + of_nat WRITE_MAX + of_nat (length (drop WRITE_MAX srcFile))
       \<and> snd (snd (snd ?r)) =
           checksumChunk (checksumChunk csVal (take WRITE_MAX srcFile)) (drop WRITE_MAX srcFile)"
      using 1(1) [OF refl refl refl _ refl refl _ _ ok1] ltk nz ok1 ne ln by simp
    have unfold: "doWrite_loop e chan srcFile tr lenVal csVal = ?r"
      using ltk nz ok1 ne by (subst doWrite_loop.simps) (simp add: Let_def)
    have d1: "length srcFile div WRITE_MAX = Suc ((length srcFile - WRITE_MAX) div WRITE_MAX)"
      using ge nz by (simp add: le_div_geq)
    have d2: "length srcFile mod WRITE_MAX = (length srcFile - WRITE_MAX) mod WRITE_MAX"
      using ge by (simp add: le_mod_geq)
    have cs: "checksumChunk (checksumChunk csVal (take WRITE_MAX srcFile)) (drop WRITE_MAX srcFile)
                = checksumChunk csVal srcFile"
      using checksumChunk_append [of csVal "take WRITE_MAX srcFile" "drop WRITE_MAX srcFile"] by simp
    show ?thesis
      unfolding unfold
      using IH d1 d2 cs ln
      by (simp add: freadSizes_append asyncWrites_append replicate_append_same)
  qed
qed

lemma strtoul16_file_example:
  "strtoul16 b (''5 '' @ CHR 0x22 # ''file.bin'' @ [CHR 0x22]) = (5, 1, 0)"
  by (simp add: strtoul_simps)

lemma doWrite_loop_empty:
  "doWrite_loop e chan [] tr lenVal csVal = (FLP_SUCCESS, tr @ [Fread 0], lenVal, csVal)"
  by (subst doWrite_loop.simps) (simp add: Let_def WRITE_MAX_def)

lemma doWrite_empty:
  "flStatus e (tr @ [Fread 0]) FlAwaitAsyncWrites \<Longrightarrow>
   doWrite e chan [] tr length0 checksum0 = (FLP_SUCCESS, tr @ [Fread 0, FlAwaitAsyncWrites], 0, 0x0000)"
  by (simp add: doWrite_def doWrite_loop_empty Let_def)

lemma doWrite_all_ok:
  assumes "\<forall>tr b. flStatus e tr (FlWriteChannelAsync chan b)" "\<forall>tr. flStatus e tr FlAwaitAsyncWrites"
  shows "fst (doWrite e chan src tr length0 checksum0) = FLP_SUCCESS"
    "freadSizes (fst (snd (doWrite e chan src tr length0 checksum0))) =
       freadSizes tr @ replicate (length src div WRITE_MAX) WRITE_MAX @ [length src mod WRITE_MAX]"
    "concat (asyncWrites (fst (snd (doWrite e chan src tr length0 checksum0)))) =
       concat (asyncWrites tr) @ src"
    "fst (snd (snd (doWrite e chan src tr length0 checksum0))) = of_nat (length src)"
    "snd (snd (snd (doWrite e chan src tr length0 checksum0))) = calcChecksum src"
  using doWrite_loop_all_ok [OF assms(1), of src tr 0 0] assms(2)
  by (simp_all add: doWrite_def Let_def freadSizes_append asyncWrites_append calcChecksum_def
      calcChecksum_loop_is_checksumChunk)

lemma write_empty_file_line:
  assumes "bufInitialiseOk e" "mallocOk e []" "fopenOk e [] ''file.bin'' False"
    "fileContents e [] ''file.bin'' = []"
    "flStatus e [Fopen ''file.bin'' False, Fread 0] FlAwaitAsyncWrites"
  shows "parseLine e (''w5 '' @ CHR 0x22 # ''file.bin'' @ [CHR 0x22]) =
           \<lparr>retVal = FLP_SUCCESS, column = None,
            events = [Fopen ''file.bin'' False, Fread 0, FlAwaitAsyncWrites]
                       @ bench e (PrintfWrote 0 0x0000 5) @ [Fclose, Dump []]\<rparr>"
  using assms strtoul16_file_example [of "strtoulEinval e"]
    doWrite_empty [of e "[Fopen ''file.bin'' False]" 5 1 0]
  by (simp add: line_simps parseLine_loop.simps case_w_def writeFromFile_def getFileName_def
      scanQuoted_def)

text \<open>
  C4. When no transport call fails and the source has \<open>k * WRITE_MAX\<close> bytes (\<open>k = 0\<close>
  is the empty source), \<^verbatim>\<open>doWrite\<close> succeeds after \<open>k + 1\<close> calls of \<^verbatim>\<open>fread\<close>: \<open>k\<close>
  full chunks and one more read that returns 0 bytes.  The bytes submitted are the source,
  the length is its length and the checksum its \<^verbatim>\<open>calcChecksum\<close>.  For the empty
  source the only calls are the \<^verbatim>\<open>fread\<close> of 0 bytes and \<^verbatim>\<open>flAwaitAsyncWrites\<close>, and the
  result is success with length 0 and checksum \<open>0x0000\<close>; the line \<^verbatim>\<open>w5 "file.bin"\<close> with
  an empty \<^verbatim>\<open>file.bin\<close> succeeds and, with benchmarking, prints 0 bytes and checksum
  \<open>0x0000\<close> for channel 5.  (\<^verbatim>\<open>doWrite_loop\<close> is a total function: the loop ends in every
  world.)
\<close>

theorem C4_write_exact_multiple:
  "((\<forall>tr b. flStatus e tr (FlWriteChannelAsync chan b)) \<and> (\<forall>tr. flStatus e tr FlAwaitAsyncWrites)
      \<and> length src = k * WRITE_MAX \<longrightarrow>
      fst (doWrite e chan src tr length0 checksum0) = FLP_SUCCESS \<and>
      freadSizes (fst (snd (doWrite e chan src tr length0 checksum0))) =
        freadSizes tr @ replicate k WRITE_MAX @ [0] \<and>
      concat (asyncWrites (fst (snd (doWrite e chan src tr length0 checksum0)))) =
        concat (asyncWrites tr) @ src \<and>
      fst (snd (snd (doWrite e chan src tr length0 checksum0))) = of_nat (length src) \<and>
      snd (snd (snd (doWrite e chan src tr length0 checksum0))) = calcChecksum src)
   \<and> (flStatus e (tr @ [Fread 0]) FlAwaitAsyncWrites \<longrightarrow>
      doWrite e chan [] tr length0 checksum0 =
        (FLP_SUCCESS, tr @ [Fread 0, FlAwaitAsyncWrites], 0, 0x0000))
   \<and> (bufInitialiseOk e \<and> mallocOk e [] \<and> fopenOk e [] ''file.bin'' False \<and>
      fileContents e [] ''file.bin'' = [] \<and>
      flStatus e [Fopen ''file.bin'' False, Fread 0] FlAwaitAsyncWrites \<longrightarrow>
      parseLine e (''w5 '' @ CHR 0x22 # ''file.bin'' @ [CHR 0x22]) =
           \<lparr>retVal = FLP_SUCCESS, column = None,
            events = [Fopen ''file.bin'' False, Fread 0, FlAwaitAsyncWrites]
                       @ bench e (PrintfWrote 0 0x0000 5) @ [Fclose, Dump []]\<rparr>)"
proof (intro conjI impI)
  assume a: "(\<forall>tr b. flStatus e tr (FlWriteChannelAsync chan b)) \<and>
    (\<forall>tr. flStatus e tr FlAwaitAsyncWrites) \<and> length src = k * WRITE_MAX"
  then have ok: "\<forall>tr b. flStatus e tr (FlWriteChannelAsync chan b)"
    "\<forall>tr. flStatus e tr FlAwaitAsyncWrites" and len: "length src = k * WRITE_MAX" by simp_all
  have dm: "length src div WRITE_MAX = k" "length src mod WRITE_MAX = 0"
    using len WRITE_MAX_pos by simp_all
  show "fst (doWrite e chan src tr length0 checksum0) = FLP_SUCCESS"
    by (rule doWrite_all_ok(1) [OF ok])
  show "freadSizes (fst (snd (doWrite e chan src tr length0 checksum0))) =
        freadSizes tr @ replicate k WRITE_MAX @ [0]"
    using doWrite_all_ok(2) [OF ok, of src tr length0 checksum0] dm by simp
  show "concat (asyncWrites (fst (snd (doWrite e chan src tr length0 checksum0)))) =
        concat (asyncWrites tr) @ src"
    by (rule doWrite_all_ok(3) [OF ok])
  show "fst (snd (snd (doWrite e chan src tr length0 checksum0))) = of_nat (length src)"
    by (rule doWrite_all_ok(4) [OF ok])
  show "snd (snd (snd (doWrite e chan src tr length0 checksum0))) = calcChecksum src"
    by (rule doWrite_all_ok(5) [OF ok])
next
  assume "flStatus e (tr @ [Fread 0]) FlAwaitAsyncWrites"
  then show "doWrite e chan [] tr length0 checksum0 =
        (FLP_SUCCESS, tr @ [Fread 0, FlAwaitAsyncWrites], 0, 0x0000)"
    by (rule doWrite_empty)
next
  assume "bufInitialiseOk e \<and> mallocOk e [] \<and> fopenOk e [] ''file.bin'' False \<and>
      fileContents e [] ''file.bin'' = [] \<and>
      flStatus e [Fopen ''file.bin'' False, Fread 0] FlAwaitAsyncWrites"
  then show "parseLine e (''w5 '' @ CHR 0x22 # ''file.bin'' @ [CHR 0x22]) =
           \<lparr>retVal = FLP_SUCCESS, column = None,
            events = [Fopen ''file.bin'' False, Fread 0, FlAwaitAsyncWrites]
                       @ bench e (PrintfWrote 0 0x0000 5) @ [Fclose, Dump []]\<rparr>"
    using write_empty_file_line [of e] by blast
qed

theorem C4_write_exact_multiple_witness:
  "fst (doWrite idealEnv 5 (replicate WRITE_MAX 0x00) [] 1 0) = FLP_SUCCESS \<and>
   freadSizes (fst (snd (doWrite idealEnv 5 (replicate WRITE_MAX 0x00) [] 1 0))) = [WRITE_MAX, 0] \<and>
   fst (snd (snd (doWrite idealEnv 5 (replicate WRITE_MAX 0x00) [] 1 0))) = of_nat WRITE_MAX \<and>
   doWrite idealEnv 5 [] [] 1 0 = (FLP_SUCCESS, [Fread 0, FlAwaitAsyncWrites], 0, 0x0000) \<and>
   parseLine idealEnv (''w5 '' @ CHR 0x22 # ''file.bin'' @ [CHR 0x22]) =
     \<lparr>retVal = FLP_SUCCESS, column = None,
      events = [Fopen ''file.bin'' False, Fread 0, FlAwaitAsyncWrites, PrintfWrote 0 0x0000 5,
                Fclose, Dump []]\<rparr>"
proof -
  have ok: "\<forall>tr b. flStatus idealEnv tr (FlWriteChannelAsync 5 b)"
    "\<forall>tr. flStatus idealEnv tr FlAwaitAsyncWrites"
    "length (replicate WRITE_MAX (0x00 :: uint8)) = 1 * WRITE_MAX"
    "flStatus idealEnv ([] @ [Fread 0]) FlAwaitAsyncWrites"
    "bufInitialiseOk idealEnv" "mallocOk idealEnv []" "fopenOk idealEnv [] ''file.bin'' False"
    "fileContents idealEnv [] ''file.bin'' = []"
    "flStatus idealEnv [Fopen ''file.bin'' False, Fread 0] FlAwaitAsyncWrites"
    by (simp_all add: idealEnv_def)
  have b: "bench idealEnv (PrintfWrote 0 0x0000 5) = [PrintfWrote 0 0x0000 5]"
    by (simp add: bench_def idealEnv_def)
  show ?thesis
    using C4_write_exact_multiple [of idealEnv 5 "replicate WRITE_MAX 0x00" 1 "[]" 1 0] ok b
    by simp
qed

subsection \<open>The pipeline of \<^verbatim>\<open>doRead\<close>\<close>

declare chunkSizes.simps [simp del]

lemma outstanding_append: "outstanding (xs @ ys) = outstanding xs + outstanding ys"
  by (induction xs rule: outstanding.induct) simp_all

lemma pipelined_append:
  "pipelined n (xs @ ys) = (pipelined n xs \<and> pipelined (n + outstanding xs) ys)"
proof (induction n xs rule: pipelined.induct)
  case (2 n c k tr)
  have eq: "n + (outstanding tr + 1) = n + 1 + outstanding tr" by simp
  show ?case unfolding append_Cons pipelined.simps outstanding.simps 2 eq by blast
next
  case (3 n tr)
  have eq: "n + (outstanding tr - 1) = n - 1 + outstanding tr" by simp
  show ?case unfolding append_Cons pipelined.simps outstanding.simps 3 eq by blast
qed simp_all

lemma pipelined_bounds:
  "pipelined n xs \<Longrightarrow> 0 \<le> n \<Longrightarrow> n \<le> 2 \<Longrightarrow>
   0 \<le> n + outstanding (take k xs) \<and> n + outstanding (take k xs) \<le> 2"
proof (induction n xs arbitrary: k rule: pipelined.induct)
  case (1 n)
  then show ?case by simp
next
  case (2 n c j tr)
  show ?case
  proof (cases k)
    case 0
    with 2 show ?thesis by simp
  next
    case (Suc k')
    with 2(1) [of k'] 2(2-) show ?thesis by simp
  qed
next
  case (3 n tr)
  show ?case
  proof (cases k)
    case 0
    with 3 show ?thesis by simp
  next
    case (Suc k')
    with 3(1) [of k'] 3(2-) show ?thesis by simp
  qed
next
  case (4 n d tr)
  then show ?case by (cases k) simp_all
qed (case_tac k; simp)+

lemma pipelined_fwrite:
  "pipelined n xs \<Longrightarrow> k < length xs \<Longrightarrow> isFwrite (xs ! k) \<Longrightarrow>
   n + outstanding (take k xs) \<le> 1"
proof (induction n xs arbitrary: k rule: pipelined.induct)
  case (1 n)
  then show ?case by simp
next
  case (2 n c j tr)
  show ?case
  proof (cases k)
    case 0
    with 2 show ?thesis by simp
  next
    case (Suc k')
    with 2(1) [of k'] 2(2-) show ?thesis by simp
  qed
next
  case (3 n tr)
  show ?case
  proof (cases k)
    case 0
    with 3 show ?thesis by simp
  next
    case (Suc k')
    with 3(1) [of k'] 3(2-) show ?thesis by simp
  qed
next
  case (4 n d tr)
  then show ?case by (cases k) simp_all
qed (case_tac k; simp)+

lemma unat_readChunkSize: "unat (readChunkSize len) = min (unat len) 65536"
  by (auto simp: readChunkSize_def READ_MAX_def word_le_nat_alt min_def)

lemma readChunkSize_of_nat: "readChunkSize len = of_nat (min (unat len) 65536)"
proof -
  have "of_nat (unat (readChunkSize len)) = readChunkSize len" by simp
  then show ?thesis by (simp only: unat_readChunkSize)
qed

lemma unat_minus_readChunkSize:
  "unat (len - readChunkSize len) = unat len - min (unat len) 65536"
proof -
  have "readChunkSize len \<le> len" by (simp add: readChunkSize_def)
  then show ?thesis by (simp add: unat_sub unat_readChunkSize)
qed

lemma unat_minus_chunk:
  "unat ((len :: uint32) - of_nat (min (unat len) 65536)) = unat len - min (unat len) 65536"
  using unat_minus_readChunkSize [of len] by (simp only: readChunkSize_of_nat)

lemma awaitChunk_calls:
  "\<exists>ext. fst (snd (awaitChunk e tr csVal)) = tr @ ext
      \<and> (\<forall>n. 1 \<le> n \<and> n \<le> 2 \<longrightarrow> pipelined n ext)
      \<and> outstanding ext = - 1
      \<and> filter isTransportCall ext = [FlReadChannelAsyncAwait]"
  by (auto simp: awaitChunk_def Let_def)

lemma doRead_loop_calls:
  "\<exists>ext. fst (snd (doRead_loop e chan len tr csVal)) = tr @ ext
      \<and> pipelined 1 ext
      \<and> (fst (doRead_loop e chan len tr csVal) = FLP_SUCCESS \<longrightarrow>
           outstanding ext = 0 \<and>
           filter isTransportCall ext = concat (map (submitAwait chan) (chunkSizes (unat len))))"
proof (induction e chan len tr csVal rule: doRead_loop.induct)
  case (1 e chan len tr csVal)
  let ?submit = "FlReadChannelAsyncSubmit chan (readChunkSize len)"
  let ?r = "awaitChunk e (tr @ [?submit]) csVal"
  show ?case
  proof (cases "len = 0")
    case True
    then show ?thesis
      by (subst (1 2) doRead_loop.simps) (simp add: chunkSizes.simps [of 0])
  next
    case nz: False
    show ?thesis
    proof (cases "flStatus e tr ?submit")
      case False
      then show ?thesis
        using nz by (subst (1 2) doRead_loop.simps) (simp add: Let_def)
    next
      case ok: True
      obtain ext1 where ext1: "fst (snd ?r) = (tr @ [?submit]) @ ext1"
        "pipelined 2 ext1" "outstanding ext1 = - 1"
        "filter isTransportCall ext1 = [FlReadChannelAsyncAwait]"
        using awaitChunk_calls [of e "tr @ [?submit]" csVal] by auto
      show ?thesis
      proof (cases "fst ?r = FLP_SUCCESS")
        case False
        have "doRead_loop e chan len tr csVal = ?r"
          using nz ok False by (subst doRead_loop.simps) (simp add: Let_def)
        then show ?thesis
          using False ext1 by simp
      next
        case True
        have un: "doRead_loop e chan len tr csVal =
                  doRead_loop e chan (len - readChunkSize len) (fst (snd ?r)) (snd (snd ?r))"
          using nz ok True by (subst doRead_loop.simps) (simp add: Let_def)
        obtain ext2 where ext2:
          "fst (snd (doRead_loop e chan (len - readChunkSize len) (fst (snd ?r)) (snd (snd ?r))))
             = fst (snd ?r) @ ext2"
          "pipelined 1 ext2"
          "fst (doRead_loop e chan (len - readChunkSize len) (fst (snd ?r)) (snd (snd ?r))) = FLP_SUCCESS
             \<longrightarrow> outstanding ext2 = 0 \<and>
                 filter isTransportCall ext2 =
                   concat (map (submitAwait chan) (chunkSizes (unat (len - readChunkSize len))))"
          using 1 [OF nz refl refl _ refl _] ok True by auto
        have pos: "unat len \<noteq> 0" using nz by (simp add: unat_eq_0)
        have cs: "chunkSizes (unat len) =
                  min (unat len) 65536 # chunkSizes (unat len - min (unat len) 65536)"
          using pos by (subst chunkSizes.simps) simp
        have p: "pipelined 1 (?submit # ext1 @ ext2)"
          using ext1 ext2 by (simp add: pipelined_append)
        have "fst (snd (doRead_loop e chan len tr csVal)) = tr @ (?submit # ext1 @ ext2)"
          unfolding un using ext1(1) ext2(1) by simp
        moreover have "fst (doRead_loop e chan len tr csVal) = FLP_SUCCESS \<longrightarrow>
            outstanding (?submit # ext1 @ ext2) = 0 \<and>
            filter isTransportCall (?submit # ext1 @ ext2) =
              concat (map (submitAwait chan) (chunkSizes (unat len)))"
          unfolding un using ext1 ext2(3) cs
          by (simp add: outstanding_append submitAwait_def unat_minus_chunk
              readChunkSize_of_nat)
        ultimately show ?thesis using p by blast
      qed
    qed
  qed
qed

lemma doRead_calls:
  "\<exists>ext. fst (snd (doRead e chan len tr)) = tr @ ext
      \<and> pipelined 0 ext
      \<and> (fst (doRead e chan len tr) = FLP_SUCCESS \<longrightarrow>
           filter isTransportCall ext = readPattern chan (unat len))"
proof -
  let ?submit = "FlReadChannelAsyncSubmit chan (readChunkSize len)"
  let ?r = "doRead_loop e chan (len - readChunkSize len) (tr @ [?submit]) 0x0000"
  let ?r2 = "awaitChunk e (fst (snd ?r)) (snd (snd ?r))"
  obtain ext1 where ext1: "fst (snd ?r) = (tr @ [?submit]) @ ext1" "pipelined 1 ext1"
    "fst ?r = FLP_SUCCESS \<longrightarrow> outstanding ext1 = 0 \<and>
       filter isTransportCall ext1 =
         concat (map (submitAwait chan) (chunkSizes (unat (len - readChunkSize len))))"
    using doRead_loop_calls [of e chan "len - readChunkSize len" "tr @ [?submit]" 0] by auto
  obtain ext2 where ext2: "fst (snd ?r2) = fst (snd ?r) @ ext2" "pipelined 1 ext2"
    "filter isTransportCall ext2 = [FlReadChannelAsyncAwait]"
    using awaitChunk_calls [of e "fst (snd ?r)" "snd (snd ?r)"] by auto
  show ?thesis
  proof (cases "flStatus e tr ?submit")
    case False
    then show ?thesis by (simp add: doRead_def Let_def)
  next
    case ok: True
    show ?thesis
    proof (cases "fst ?r = FLP_SUCCESS")
      case False
      then have "fst (snd (doRead e chan len tr)) = tr @ (?submit # ext1)"
        "fst (doRead e chan len tr) \<noteq> FLP_SUCCESS"
        using ok ext1(1) by (simp_all add: doRead_def Let_def)
      moreover have "pipelined 0 (?submit # ext1)" using ext1(2) by simp
      ultimately show ?thesis by blast
    next
      case True
      have calls: "fst (snd (doRead e chan len tr)) = tr @ (?submit # ext1 @ ext2)"
        using ok True ext1(1) ext2(1) by (simp add: doRead_def Let_def)
      have p: "pipelined 0 (?submit # ext1 @ ext2)"
        using ext1 ext2 True by (simp add: pipelined_append)
      have "filter isTransportCall (?submit # ext1 @ ext2) = readPattern chan (unat len)"
        using ext1(3) ext2(3) True
        by (simp add: readPattern_def submitAwait_def unat_minus_chunk
            readChunkSize_of_nat)
      with calls p show ?thesis by blast
    qed
  qed
qed

lemma awaitChunk_succeeds:
  assumes "\<forall>tr ev. flStatus e tr ev" "\<forall>tr d. fwriteCount e tr d = length d"
  shows "fst (awaitChunk e tr csVal) = FLP_SUCCESS"
  using assms by (simp add: awaitChunk_def Let_def)

lemma doRead_loop_succeeds:
  assumes "\<forall>tr ev. flStatus e tr ev" "\<forall>tr d. fwriteCount e tr d = length d"
  shows "fst (doRead_loop e chan len tr csVal) = FLP_SUCCESS"
  using assms
proof (induction e chan len tr csVal rule: doRead_loop.induct)
  case (1 e chan len tr csVal)
  show ?case
  proof (cases "len = 0")
    case True
    then show ?thesis by (subst doRead_loop.simps) simp
  next
    case False
    have a: "fst (awaitChunk e (tr @ [FlReadChannelAsyncSubmit chan (readChunkSize len)]) csVal)
               = FLP_SUCCESS"
      using 1(2,3) by (rule awaitChunk_succeeds)
    have "fst (doRead_loop e chan (len - readChunkSize len)
            (fst (snd (awaitChunk e (tr @ [FlReadChannelAsyncSubmit chan (readChunkSize len)]) csVal)))
            (snd (snd (awaitChunk e (tr @ [FlReadChannelAsyncSubmit chan (readChunkSize len)]) csVal))))
          = FLP_SUCCESS"
      using 1(1) [OF False refl refl _ refl _ 1(2,3)] 1(2) a by simp
    then show ?thesis
      using False 1(2) a by (subst doRead_loop.simps) (simp add: Let_def)
  qed
qed

lemma doRead_succeeds:
  assumes "\<forall>tr ev. flStatus e tr ev" "\<forall>tr d. fwriteCount e tr d = length d"
  shows "fst (doRead e chan len tr) = FLP_SUCCESS"
  using assms doRead_loop_succeeds [OF assms] awaitChunk_succeeds [OF assms]
  by (simp add: doRead_def Let_def)

lemma awaitChunk_idealEnv:
  "awaitChunk idealEnv tr csVal =
     (FLP_SUCCESS,
      tr @ [FlReadChannelAsyncAwait, Fwrite (deviceData (tr @ [FlReadChannelAsyncAwait]))],
      checksumChunk csVal (deviceData (tr @ [FlReadChannelAsyncAwait])))"
  by (simp add: awaitChunk_def idealEnv_def Let_def)

lemma readChunkSize_examples:
  "readChunkSize 65537 = 65536" "readChunkSize 1 = 1"
  by (simp_all add: readChunkSize_def READ_MAX_def word_le_nat_alt)

lemma doRead_loop_0: "doRead_loop e chan 0 tr csVal = (FLP_SUCCESS, tr, csVal)"
  by (subst doRead_loop.simps) simp

lemma doRead_loop_1:
  "doRead_loop idealEnv chan 1 tr csVal =
     (FLP_SUCCESS,
      tr @ [FlReadChannelAsyncSubmit chan 1, FlReadChannelAsyncAwait,
            Fwrite (deviceData (tr @ [FlReadChannelAsyncSubmit chan 1, FlReadChannelAsyncAwait]))],
      checksumChunk csVal
        (deviceData (tr @ [FlReadChannelAsyncSubmit chan 1, FlReadChannelAsyncAwait])))"
proof -
  have st: "flStatus idealEnv tr (FlReadChannelAsyncSubmit chan 1)" by (simp add: idealEnv_def)
  show ?thesis
    by (subst doRead_loop.simps)
       (simp add: Let_def readChunkSize_examples st awaitChunk_idealEnv doRead_loop_0)
qed

lemma doRead_65537:
  "fst (doRead idealEnv 1 65537 []) = FLP_SUCCESS"
  "fst (snd (doRead idealEnv 1 65537 [])) =
     [FlReadChannelAsyncSubmit 1 65536, FlReadChannelAsyncSubmit 1 1,
      FlReadChannelAsyncAwait,
      Fwrite (deviceData [FlReadChannelAsyncSubmit 1 65536, FlReadChannelAsyncSubmit 1 1,
                          FlReadChannelAsyncAwait]),
      FlReadChannelAsyncAwait,
      Fwrite (deviceData [FlReadChannelAsyncSubmit 1 65536, FlReadChannelAsyncSubmit 1 1,
                          FlReadChannelAsyncAwait,
                          Fwrite (deviceData [FlReadChannelAsyncSubmit 1 65536,
                                              FlReadChannelAsyncSubmit 1 1,
                                              FlReadChannelAsyncAwait]),
                          FlReadChannelAsyncAwait])]"
proof -
  have st: "flStatus idealEnv [] (FlReadChannelAsyncSubmit 1 65536)" by (simp add: idealEnv_def)
  have w: "(65537 :: uint32) - 65536 = 1" by simp
  show "fst (doRead idealEnv 1 65537 []) = FLP_SUCCESS"
    by (simp add: doRead_def Let_def readChunkSize_examples st w doRead_loop_1 awaitChunk_idealEnv)
  show "fst (snd (doRead idealEnv 1 65537 [])) =
     [FlReadChannelAsyncSubmit 1 65536, FlReadChannelAsyncSubmit 1 1,
      FlReadChannelAsyncAwait,
      Fwrite (deviceData [FlReadChannelAsyncSubmit 1 65536, FlReadChannelAsyncSubmit 1 1,
                          FlReadChannelAsyncAwait]),
      FlReadChannelAsyncAwait,
      Fwrite (deviceData [FlReadChannelAsyncSubmit 1 65536, FlReadChannelAsyncSubmit 1 1,
                          FlReadChannelAsyncAwait,
                          Fwrite (deviceData [FlReadChannelAsyncSubmit 1 65536,
                                              FlReadChannelAsyncSubmit 1 1,
                                              FlReadChannelAsyncAwait]),
                          FlReadChannelAsyncAwait])]"
    by (simp add: doRead_def Let_def readChunkSize_examples st w doRead_loop_1 awaitChunk_idealEnv)
qed

text \<open>
  C5, as claimed: at most one chunk is ever submitted and not yet awaited.  In a read of
  65537 bytes, after the first two calls (the submits of 65536 bytes and of 1 byte) two
  chunks are.
\<close>

theorem C5_counterexample:
  "outstanding (take 2 (fst (snd (doRead idealEnv 1 65537 [])))) = 2"
  by (simp add: doRead_65537)

text \<open>
  C5, amended.  For every length: when \<^verbatim>\<open>doRead\<close> succeeds, its transport calls are, in
  order, the submit of the first chunk, then for each further chunk its submit followed by
  the await of the chunk before it, then a last await, every chunk of
  \<open>min(remaining, 65536)\<close> bytes; and it succeeds when no transport call fails and
  \<^verbatim>\<open>fwrite\<close> writes every chunk in full.  In every world, after any number of its calls
  at most two chunks are submitted and not yet awaited (and never fewer than none), and at
  most one is whenever a received chunk is written to the file.
\<close>

theorem C5_read_pipeline:
  "(fst (doRead e chan len []) = FLP_SUCCESS \<longrightarrow>
      filter isTransportCall (fst (snd (doRead e chan len []))) = readPattern chan (unat len))
   \<and> ((\<forall>tr ev. flStatus e tr ev) \<and> (\<forall>tr d. fwriteCount e tr d = length d) \<longrightarrow>
      fst (doRead e chan len []) = FLP_SUCCESS)
   \<and> (\<forall>k. 0 \<le> outstanding (take k (fst (snd (doRead e chan len []))))
          \<and> outstanding (take k (fst (snd (doRead e chan len [])))) \<le> 2)
   \<and> (\<forall>k < length (fst (snd (doRead e chan len []))).
         isFwrite (fst (snd (doRead e chan len [])) ! k) \<longrightarrow>
         outstanding (take k (fst (snd (doRead e chan len [])))) \<le> 1)"
proof -
  obtain ext where ext: "fst (snd (doRead e chan len [])) = ext" "pipelined 0 ext"
    "fst (doRead e chan len []) = FLP_SUCCESS \<longrightarrow>
       filter isTransportCall ext = readPattern chan (unat len)"
    using doRead_calls [of e chan len "[]"] by auto
  have b: "\<forall>k. 0 \<le> outstanding (take k ext) \<and> outstanding (take k ext) \<le> 2"
    using pipelined_bounds [OF ext(2)] by simp
  have f: "\<forall>k < length ext. isFwrite (ext ! k) \<longrightarrow> outstanding (take k ext) \<le> 1"
    using pipelined_fwrite [OF ext(2)] by simp
  have s: "(\<forall>tr ev. flStatus e tr ev) \<and> (\<forall>tr d. fwriteCount e tr d = length d) \<longrightarrow>
      fst (doRead e chan len []) = FLP_SUCCESS"
    using doRead_succeeds [of e chan len "[]"] by blast
  show ?thesis unfolding ext(1) using ext(3) b f s by blast
qed

theorem C5_read_pipeline_witness:
  "fst (doRead idealEnv 1 65537 []) = FLP_SUCCESS
   \<and> filter isTransportCall (fst (snd (doRead idealEnv 1 65537 []))) =
       [FlReadChannelAsyncSubmit 1 65536, FlReadChannelAsyncSubmit 1 1,
        FlReadChannelAsyncAwait, FlReadChannelAsyncAwait]
   \<and> readPattern 1 65537 =
       [FlReadChannelAsyncSubmit 1 65536, FlReadChannelAsyncSubmit 1 1,
        FlReadChannelAsyncAwait, FlReadChannelAsyncAwait]
   \<and> 3 < length (fst (snd (doRead idealEnv 1 65537 [])))
   \<and> isFwrite (fst (snd (doRead idealEnv 1 65537 [])) ! 3)
   \<and> outstanding (take 3 (fst (snd (doRead idealEnv 1 65537 [])))) \<le> 1"
proof -
  have p: "readPattern 1 65537 =
       [FlReadChannelAsyncSubmit 1 65536, FlReadChannelAsyncSubmit 1 1,
        FlReadChannelAsyncAwait, FlReadChannelAsyncAwait]"
    by (simp add: readPattern_def submitAwait_def chunkSizes.simps [of "Suc 0"] chunkSizes.simps [of 0])
  have u: "unat (65537 :: uint32) = 65537" by simp
  have l: "3 < length (fst (snd (doRead idealEnv 1 65537 [])))"
    "isFwrite (fst (snd (doRead idealEnv 1 65537 [])) ! 3)"
    by (simp_all add: doRead_65537)
  from C5_read_pipeline [of idealEnv 1 65537] doRead_65537(1) u p l
  show ?thesis by simp
qed

subsection \<open>The unchecked \<^verbatim>\<open>malloc\<close> of the hex write\<close>

lemma write_crashes_without_memory:
  assumes "bufInitialiseOk e" "\<not> mallocOk e []"
  shows "parseLine e ''w 5 ab'' = \<lparr>retVal = CRASHED, column = None, events = []\<rparr>"
  using assms
  by (simp add: line_simps parseLine_loop.simps write_simps strtoul16_beyond_grammar)

subsection \<open>The checksum of a transfer\<close>

lemma fwriteData_append: "fwriteData (xs @ ys) = fwriteData xs @ fwriteData ys"
  by (induction xs rule: fwriteData.induct) simp_all

lemma calcChecksum_is_checksumChunk: "calcChecksum xs = checksumChunk 0 xs"
  by (simp add: calcChecksum_def calcChecksum_loop_is_checksumChunk)

lemma awaitChunk_checksum:
  assumes "fst (awaitChunk e tr csVal) = FLP_SUCCESS"
  shows "\<exists>d. fst (snd (awaitChunk e tr csVal)) = tr @ [FlReadChannelAsyncAwait, Fwrite d]
           \<and> snd (snd (awaitChunk e tr csVal)) = checksumChunk csVal d"
  using assms by (auto simp: awaitChunk_def Let_def split: if_splits)

lemma doRead_loop_checksum:
  "fst (doRead_loop e chan len tr csVal) = FLP_SUCCESS \<Longrightarrow>
   \<exists>ext. fst (snd (doRead_loop e chan len tr csVal)) = tr @ ext
      \<and> snd (snd (doRead_loop e chan len tr csVal)) = foldl checksumChunk csVal (fwriteData ext)"
proof (induction e chan len tr csVal rule: doRead_loop.induct)
  case (1 e chan len tr csVal)
  let ?submit = "FlReadChannelAsyncSubmit chan (readChunkSize len)"
  let ?r = "awaitChunk e (tr @ [?submit]) csVal"
  show ?case
  proof (cases "len = 0")
    case True
    then show ?thesis by (subst (1 2) doRead_loop.simps) simp
  next
    case nz: False
    have ok: "flStatus e tr ?submit"
      using 1(2) nz by (subst (asm) doRead_loop.simps) (auto simp: Let_def split: if_splits)
    have r: "fst ?r = FLP_SUCCESS"
      using 1(2) nz ok by (subst (asm) doRead_loop.simps) (auto simp: Let_def split: if_splits)
    have un: "doRead_loop e chan len tr csVal =
              doRead_loop e chan (len - readChunkSize len) (fst (snd ?r)) (snd (snd ?r))"
      using nz ok r by (subst doRead_loop.simps) (simp add: Let_def)
    obtain d where d: "fst (snd ?r) = (tr @ [?submit]) @ [FlReadChannelAsyncAwait, Fwrite d]"
      "snd (snd ?r) = checksumChunk csVal d"
      using awaitChunk_checksum [OF r] by auto
    have "fst (doRead_loop e chan (len - readChunkSize len) (fst (snd ?r)) (snd (snd ?r))) = FLP_SUCCESS"
      using 1(2) un by simp
    from 1(1) [OF nz refl refl _ refl _ this] ok r
    obtain ext where ext:
      "fst (snd (doRead_loop e chan (len - readChunkSize len) (fst (snd ?r)) (snd (snd ?r))))
         = fst (snd ?r) @ ext"
      "snd (snd (doRead_loop e chan (len - readChunkSize len) (fst (snd ?r)) (snd (snd ?r))))
         = foldl checksumChunk (snd (snd ?r)) (fwriteData ext)"
      by auto
    have "fst (snd (doRead_loop e chan len tr csVal)) = fst (snd ?r) @ ext"
      by (simp only: un ext(1))
    then have "fst (snd (doRead_loop e chan len tr csVal))
            = tr @ (?submit # FlReadChannelAsyncAwait # Fwrite d # ext)"
      by (simp add: d(1))
    moreover have "snd (snd (doRead_loop e chan len tr csVal))
            = foldl checksumChunk (snd (snd ?r)) (fwriteData ext)"
      by (simp only: un ext(2))
    then have "snd (snd (doRead_loop e chan len tr csVal))
            = foldl checksumChunk csVal (fwriteData (?submit # FlReadChannelAsyncAwait # Fwrite d # ext))"
      by (simp add: d(2))
    ultimately show ?thesis by blast
  qed
qed

lemma doRead_checksum:
  assumes "fst (doRead e chan len tr) = FLP_SUCCESS"
  shows "snd (snd (doRead e chan len tr)) =
           foldl checksumChunk 0 (fwriteData (drop (length tr) (fst (snd (doRead e chan len tr)))))"
proof -
  let ?submit = "FlReadChannelAsyncSubmit chan (readChunkSize len)"
  let ?r = "doRead_loop e chan (len - readChunkSize len) (tr @ [?submit]) 0x0000"
  let ?r2 = "awaitChunk e (fst (snd ?r)) (snd (snd ?r))"
  have ok: "flStatus e tr ?submit"
    using assms by (auto simp: doRead_def Let_def split: if_splits)
  have r: "fst ?r = FLP_SUCCESS"
    using assms ok by (auto simp: doRead_def Let_def split: if_splits)
  have r2: "fst ?r2 = FLP_SUCCESS"
    using assms ok r by (auto simp: doRead_def Let_def split: if_splits)
  have un: "doRead e chan len tr = ?r2"
    using ok r r2 by (simp add: doRead_def Let_def)
  obtain ext where ext: "fst (snd ?r) = (tr @ [?submit]) @ ext"
    "snd (snd ?r) = foldl checksumChunk 0 (fwriteData ext)"
    using doRead_loop_checksum [OF r] by auto
  obtain d where d: "fst (snd ?r2) = fst (snd ?r) @ [FlReadChannelAsyncAwait, Fwrite d]"
    "snd (snd ?r2) = checksumChunk (snd (snd ?r)) d"
    using awaitChunk_checksum [OF r2] by auto
  have "fst (snd (doRead e chan len tr)) = fst (snd ?r) @ [FlReadChannelAsyncAwait, Fwrite d]"
    by (simp only: un d(1))
  then have calls: "fst (snd (doRead e chan len tr)) =
                 tr @ (?submit # ext @ [FlReadChannelAsyncAwait, Fwrite d])"
    by (simp add: ext(1))
  have "snd (snd (doRead e chan len tr)) = checksumChunk (snd (snd ?r)) d"
    by (simp only: un d(2))
  then have "snd (snd (doRead e chan len tr)) =
          foldl checksumChunk 0 (fwriteData (?submit # ext @ [FlReadChannelAsyncAwait, Fwrite d]))"
    by (simp add: ext(2) fwriteData_append)
  then show ?thesis unfolding calls by simp
qed

lemma doWrite_loop_checksum:
  "fst (doWrite_loop e chan src tr lenVal csVal) = FLP_SUCCESS \<Longrightarrow>
   \<exists>ext. fst (snd (doWrite_loop e chan src tr lenVal csVal)) = tr @ ext
      \<and> concat (asyncWrites ext) = src
      \<and> snd (snd (snd (doWrite_loop e chan src tr lenVal csVal))) =
          foldl checksumChunk csVal (asyncWrites ext)"
proof (induction e chan src tr lenVal csVal rule: doWrite_loop.induct)
  case (1 e chan srcFile tr lenVal csVal)
  let ?buffer = "take WRITE_MAX srcFile"
  let ?wcall = "FlWriteChannelAsync chan ?buffer"
  let ?tr1 = "tr @ [Fread (length ?buffer)]"
  show ?case
  proof (cases "srcFile = []")
    case True
    then show ?thesis
      by (subst (1 2) doWrite_loop.simps) (simp add: Let_def WRITE_MAX_def)
  next
    case ne: False
    then have nz: "length ?buffer \<noteq> 0" by (simp add: WRITE_MAX_def)
    have ok: "flStatus e ?tr1 ?wcall"
      using 1(3) nz by (subst (asm) doWrite_loop.simps) (auto simp: Let_def split: if_splits)
    show ?thesis
    proof (cases "length ?buffer = WRITE_MAX")
      case False
      then have lt: "length srcFile < WRITE_MAX" by (simp add: min_def split: if_splits)
      then have all: "?buffer = srcFile" by simp
      have "doWrite_loop e chan srcFile tr lenVal csVal =
              (FLP_SUCCESS, tr @ [Fread (length ?buffer), ?wcall],
               lenVal + of_nat (length ?buffer), checksumChunk csVal ?buffer)"
        using nz ok lt by (subst doWrite_loop.simps) (simp add: Let_def)
      then show ?thesis using all by simp
    next
      case full: True
      let ?r = "doWrite_loop e chan (drop WRITE_MAX srcFile) (?tr1 @ [?wcall])
                  (lenVal + of_nat (length ?buffer)) (checksumChunk csVal ?buffer)"
      have un: "doWrite_loop e chan srcFile tr lenVal csVal = ?r"
        using nz ok full by (subst doWrite_loop.simps) (simp add: Let_def)
      have "fst ?r = FLP_SUCCESS" using 1(3) un by simp
      from 1(1) [OF refl refl refl nz refl refl _ full this] ok
      obtain ext where ext: "fst (snd ?r) = (?tr1 @ [?wcall]) @ ext"
        "concat (asyncWrites ext) = drop WRITE_MAX srcFile"
        "snd (snd (snd ?r)) = foldl checksumChunk (checksumChunk csVal ?buffer) (asyncWrites ext)"
        by auto
      have "fst (snd (doWrite_loop e chan srcFile tr lenVal csVal)) =
              tr @ (Fread (length ?buffer) # ?wcall # ext)"
        by (simp only: un ext(1)) simp
      moreover have "concat (asyncWrites (Fread (length ?buffer) # ?wcall # ext)) = srcFile"
        using ext(2) by simp
      moreover have "snd (snd (snd (doWrite_loop e chan srcFile tr lenVal csVal))) =
              foldl checksumChunk csVal (asyncWrites (Fread (length ?buffer) # ?wcall # ext))"
        by (simp only: un ext(3)) simp
      ultimately show ?thesis by blast
    qed
  qed
qed

lemma doWrite_checksum:
  assumes "fst (doWrite e chan src tr length0 checksum0) = FLP_SUCCESS"
  shows "snd (snd (snd (doWrite e chan src tr length0 checksum0))) =
           foldl checksumChunk 0
             (asyncWrites (drop (length tr) (fst (snd (doWrite e chan src tr length0 checksum0)))))"
    and "concat (asyncWrites (drop (length tr) (fst (snd (doWrite e chan src tr length0 checksum0)))))
           = src"
proof -
  let ?r = "doWrite_loop e chan src tr 0 0x0000"
  have r: "fst ?r = FLP_SUCCESS"
    using assms by (auto simp: doWrite_def Let_def split: if_splits)
  have ok: "flStatus e (fst (snd ?r)) FlAwaitAsyncWrites"
    using assms r by (auto simp: doWrite_def Let_def split: if_splits)
  obtain ext where ext: "fst (snd ?r) = tr @ ext" "concat (asyncWrites ext) = src"
    "snd (snd (snd ?r)) = foldl checksumChunk 0 (asyncWrites ext)"
    using doWrite_loop_checksum [OF r] by auto
  have un: "doWrite e chan src tr length0 checksum0 =
              (FLP_SUCCESS, tr @ ext @ [FlAwaitAsyncWrites], fst (snd (snd ?r)), snd (snd (snd ?r)))"
    using r ok ext(1) by (simp add: doWrite_def Let_def)
  show "snd (snd (snd (doWrite e chan src tr length0 checksum0))) =
           foldl checksumChunk 0
             (asyncWrites (drop (length tr) (fst (snd (doWrite e chan src tr length0 checksum0)))))"
    unfolding un using ext(3) by (simp add: asyncWrites_append)
  show "concat (asyncWrites (drop (length tr) (fst (snd (doWrite e chan src tr length0 checksum0)))))
           = src"
    unfolding un using ext(2) by (simp add: asyncWrites_append)
qed

lemma doRead_3:
  "doRead idealEnv 5 3 [] =
     (FLP_SUCCESS,
      [FlReadChannelAsyncSubmit 5 3, FlReadChannelAsyncAwait, Fwrite [0, 1, 2]], 3)"
proof -
  have st: "flStatus idealEnv [] (FlReadChannelAsyncSubmit 5 3)" by (simp add: idealEnv_def)
  have c: "readChunkSize 3 = 3" by (simp add: readChunkSize_def READ_MAX_def word_le_nat_alt)
  have d: "deviceData [FlReadChannelAsyncSubmit 5 3, FlReadChannelAsyncAwait] = [0, 1, 2]"
    by (simp add: deviceData_def countingBytes_def upt_conv_Cons)
  show ?thesis
    by (simp add: doRead_def Let_def c st doRead_loop_0 awaitChunk_idealEnv d)
qed

text \<open>
  C3. The 16-bit checksum does not depend on the chunking.  For every list of chunks, running
  the per-byte update \<open>acc = (acc + byte) mod 65536\<close> chunk after chunk, in transfer order and
  starting from 0, gives \<^verbatim>\<open>calcChecksum\<close> of the concatenated bytes, which is the sum of all
  bytes modulo 65536.  The transfer engine does just that: the checksum of a \<^verbatim>\<open>doRead\<close>
  that succeeds is that fold over the chunks it received and wrote, in the order of its
  calls, hence \<^verbatim>\<open>calcChecksum\<close> of all bytes received, whatever the sizes of the chunks;
  two reads that receive the same bytes in different chunks return the same checksum; and
  the checksum of a \<^verbatim>\<open>doWrite\<close> that succeeds is that fold over the chunks it submitted,
  which together are the source, hence \<^verbatim>\<open>calcChecksum\<close> of the source.
\<close>

theorem C3_checksum_chunk_invariant:
  "foldl checksumChunk 0 chunks = calcChecksum (concat chunks)
   \<and> unat (foldl checksumChunk 0 chunks) = sum_list (map unat (concat chunks)) mod 65536
   \<and> (fst (doRead e chan len tr) = FLP_SUCCESS \<longrightarrow>
        snd (snd (doRead e chan len tr)) =
          foldl checksumChunk 0 (fwriteData (drop (length tr) (fst (snd (doRead e chan len tr)))))
        \<and> snd (snd (doRead e chan len tr)) =
          calcChecksum (concat (fwriteData (drop (length tr) (fst (snd (doRead e chan len tr)))))))
   \<and> (fst (doRead e chan len tr) = FLP_SUCCESS \<and> fst (doRead e2 chan2 len2 tr2) = FLP_SUCCESS
        \<and> concat (fwriteData (drop (length tr) (fst (snd (doRead e chan len tr))))) =
          concat (fwriteData (drop (length tr2) (fst (snd (doRead e2 chan2 len2 tr2))))) \<longrightarrow>
        snd (snd (doRead e chan len tr)) = snd (snd (doRead e2 chan2 len2 tr2)))
   \<and> (fst (doWrite e chan src tr lengthIn checksumIn) = FLP_SUCCESS \<longrightarrow>
        snd (snd (snd (doWrite e chan src tr lengthIn checksumIn))) =
          foldl checksumChunk 0
            (asyncWrites (drop (length tr) (fst (snd (doWrite e chan src tr lengthIn checksumIn)))))
        \<and> concat (asyncWrites (drop (length tr) (fst (snd (doWrite e chan src tr lengthIn checksumIn)))))
            = src
        \<and> snd (snd (snd (doWrite e chan src tr lengthIn checksumIn))) = calcChecksum src)"
proof -
  have law: "\<And>cs. foldl checksumChunk 0 cs = calcChecksum (concat cs)"
    by (simp add: foldl_checksumChunk calcChecksum_is_checksumChunk)
  have sum: "unat (foldl checksumChunk 0 chunks) = sum_list (map unat (concat chunks)) mod 65536"
    by (simp add: foldl_checksumChunk checksumChunk_unat)
  have rd: "\<And>e chan len tr. fst (doRead e chan len tr) = FLP_SUCCESS \<Longrightarrow>
        snd (snd (doRead e chan len tr)) =
          calcChecksum (concat (fwriteData (drop (length tr) (fst (snd (doRead e chan len tr))))))"
  proof -
    fix e chan len tr
    assume "fst (doRead e chan len tr) = FLP_SUCCESS"
    from doRead_checksum [OF this] show "snd (snd (doRead e chan len tr)) =
          calcChecksum (concat (fwriteData (drop (length tr) (fst (snd (doRead e chan len tr))))))"
      by (simp only: law)
  qed
  have c1: "fst (doRead e chan len tr) = FLP_SUCCESS \<longrightarrow>
        snd (snd (doRead e chan len tr)) =
          foldl checksumChunk 0 (fwriteData (drop (length tr) (fst (snd (doRead e chan len tr)))))
        \<and> snd (snd (doRead e chan len tr)) =
          calcChecksum (concat (fwriteData (drop (length tr) (fst (snd (doRead e chan len tr))))))"
    using doRead_checksum [of e chan len tr] rd [of e chan len tr] by blast
  have c2: "fst (doRead e chan len tr) = FLP_SUCCESS \<and> fst (doRead e2 chan2 len2 tr2) = FLP_SUCCESS
        \<and> concat (fwriteData (drop (length tr) (fst (snd (doRead e chan len tr))))) =
          concat (fwriteData (drop (length tr2) (fst (snd (doRead e2 chan2 len2 tr2))))) \<longrightarrow>
        snd (snd (doRead e chan len tr)) = snd (snd (doRead e2 chan2 len2 tr2))"
    using rd [of e chan len tr] rd [of e2 chan2 len2 tr2] by auto
  have c3: "fst (doWrite e chan src tr lengthIn checksumIn) = FLP_SUCCESS \<longrightarrow>
        snd (snd (snd (doWrite e chan src tr lengthIn checksumIn))) =
          foldl checksumChunk 0
            (asyncWrites (drop (length tr) (fst (snd (doWrite e chan src tr lengthIn checksumIn)))))
        \<and> concat (asyncWrites (drop (length tr) (fst (snd (doWrite e chan src tr lengthIn checksumIn)))))
            = src
        \<and> snd (snd (snd (doWrite e chan src tr lengthIn checksumIn))) = calcChecksum src"
  proof
    assume ok: "fst (doWrite e chan src tr lengthIn checksumIn) = FLP_SUCCESS"
    note w = doWrite_checksum [OF ok]
    have "snd (snd (snd (doWrite e chan src tr lengthIn checksumIn))) = calcChecksum src"
      using w(1) w(2) by (simp only: law)
    with w show "snd (snd (snd (doWrite e chan src tr lengthIn checksumIn))) =
          foldl checksumChunk 0
            (asyncWrites (drop (length tr) (fst (snd (doWrite e chan src tr lengthIn checksumIn)))))
        \<and> concat (asyncWrites (drop (length tr) (fst (snd (doWrite e chan src tr lengthIn checksumIn)))))
            = src
        \<and> snd (snd (snd (doWrite e chan src tr lengthIn checksumIn))) = calcChecksum src"
      by blast
  qed
  from law [of chunks] sum c1 c2 c3 show ?thesis by blast
qed

theorem C3_checksum_chunk_invariant_witness:
  "fst (doRead idealEnv 5 3 []) = FLP_SUCCESS
   \<and> fwriteData (fst (snd (doRead idealEnv 5 3 []))) = [[0, 1, 2]]
   \<and> snd (snd (doRead idealEnv 5 3 [])) = calcChecksum [0, 1, 2]
   \<and> calcChecksum [0, 1, 2] = 3
   \<and> fst (doWrite idealEnv 5 [1, 2, 3] [] 1 0) = FLP_SUCCESS
   \<and> snd (snd (snd (doWrite idealEnv 5 [1, 2, 3] [] 1 0))) = calcChecksum [1, 2, 3]
   \<and> calcChecksum [1, 2, 3] = 6
   \<and> foldl checksumChunk 0 [[1], [2, 3]] = calcChecksum [1, 2, 3]"
proof -
  have ok: "\<forall>tr b. flStatus idealEnv tr (FlWriteChannelAsync 5 b)"
    "\<forall>tr. flStatus idealEnv tr FlAwaitAsyncWrites"
    by (simp_all add: idealEnv_def)
  have w: "fst (doWrite idealEnv 5 [1, 2, 3] [] 1 0) = FLP_SUCCESS"
    by (rule doWrite_all_ok(1) [OF ok])
  have r: "fst (doRead idealEnv 5 3 []) = FLP_SUCCESS"
    "fwriteData (fst (snd (doRead idealEnv 5 3 []))) = [[0, 1, 2]]"
    by (simp_all add: doRead_3)
  have c: "calcChecksum [1, 2, 3] = 6" "calcChecksum [0, 1, 2] = 3"
    by (simp_all add: calcChecksum_def)
  note t = C3_checksum_chunk_invariant [where chunks = "[[1], [2, 3]]" and e = idealEnv
        and chan = 5 and src = "[1, 2, 3]" and tr = "[]" and lengthIn = 1 and checksumIn = 0
        and len = 3 and ?e2.0 = idealEnv and ?chan2.0 = 5 and ?len2.0 = 3 and ?tr2.0 = "[]"]
  have "foldl checksumChunk 0 [[1], [2, 3]] = calcChecksum (concat [[1], [2, 3 :: uint8]])"
    by (rule t [THEN conjunct1])
  then have t1: "foldl checksumChunk 0 [[1], [2, 3]] = calcChecksum [1, 2, 3]"
    by simp
  note rd = t [THEN conjunct2, THEN conjunct2, THEN conjunct1, THEN mp, OF r(1), THEN conjunct2]
  have t2: "snd (snd (doRead idealEnv 5 3 [])) = calcChecksum [0, 1, 2]"
    using rd by (simp add: r(2))
  note wr = t [THEN conjunct2, THEN conjunct2, THEN conjunct2, THEN conjunct2, THEN mp, OF w,
      THEN conjunct2, THEN conjunct2]
  have t3: "snd (snd (snd (doWrite idealEnv 5 [1, 2, 3] [] 1 0))) = calcChecksum [1, 2, 3]"
    by (rule wr)
  from r t2 c w t3 t1 show ?thesis by (simp only: simp_thms)
qed

end
